theory Spec2Isabelle
  imports Main "HOL-Library.AList" "HOL-Library.Sublist"
begin

section \<open>The virtual file system (types.ts, App.tsx)\<close>

text \<open>
  A node is a file with its content or a folder with its children. The children of a
  folder are a JavaScript object used as a dictionary; it is modelled as an association
  list with the operations of \<open>AList\<close>: \<open>map_of\<close> reads a key, \<open>AList.update\<close> assigns
  it (in place when the key exists, at the end otherwise, as property assignment does)
  and \<open>AList.delete\<close> removes it. No function here enumerates the children, so the order
  of the list is never observed. Names are assumed not to be inherited property names of
  \<open>Object.prototype\<close>, and text is a list of 8-bit characters.
\<close>

datatype FileSystemNode =
    FileNode (content: string)
  | FolderNode (children: "(string \<times> FileSystemNode) list")

type_synonym FileSystemTree = FileSystemNode

datatype FileOperationType =
    CREATE_FILE | UPDATE_FILE | DELETE_FILE | CREATE_FOLDER | DELETE_FOLDER
  | RENAME_FILE | RENAME_FOLDER

text \<open>The optional \<open>description\<close> of an operation is never read by the applier.\<close>

record FileOperation =
  operation :: FileOperationType
  path :: string
  op_content :: "string option"
  newPath :: "string option"

text \<open>\<open>s.split(c)\<close> for a one-character separator.\<close>

fun split_on :: "char \<Rightarrow> string \<Rightarrow> string list" where
  "split_on c [] = [[]]"
| "split_on c (x # xs) =
     (if x = c then [] # split_on c xs
      else (case split_on c xs of
              [] \<Rightarrow> [[x]]
            | w # ws \<Rightarrow> (x # w) # ws))"

text \<open>\<open>path.split('/').filter(p => p)\<close>: the non-empty components of a path.\<close>

definition path_parts :: "string \<Rightarrow> string list" where
  "path_parts p = filter (\<lambda>s. s \<noteq> []) (split_on CHR ''/'' p)"

definition is_folder :: "FileSystemNode \<Rightarrow> bool" where
  "is_folder n = (case n of FolderNode _ \<Rightarrow> True | FileNode _ \<Rightarrow> False)"

text \<open>
  The loop of \<open>traversePath\<close> over the intermediate components, followed by the test
  of line 91 that the node reached is a folder. \<open>current\<close> is a reference into the
  tree; the model returns the subtree as the loop leaves it (with the parents it created)
  and whether the traversal succeeded. A failed traversal keeps what it created before
  failing, as the source does.
\<close>

fun descend :: "bool \<Rightarrow> string list \<Rightarrow> FileSystemNode \<Rightarrow> FileSystemNode \<times> bool" where
  "descend createParents [] current = (current, is_folder current)"
| "descend createParents (part # rest) current =
     (case current of
        FileNode _ \<Rightarrow> (current, False)
      | FolderNode ch \<Rightarrow>
          (case map_of ch part of
             Some child \<Rightarrow>
               (let (child', ok) = descend createParents rest child
                in (FolderNode (AList.update part child' ch), ok))
           | None \<Rightarrow>
               if createParents then
                 (let (child', ok) = descend createParents rest (FolderNode [])
                  in (FolderNode (AList.update part child' ch), ok))
               else (current, False)))"

text \<open>The node a reference denotes: the folder reached from the root along \<open>addr\<close>.\<close>

fun node_at :: "string list \<Rightarrow> FileSystemNode \<Rightarrow> FileSystemNode option" where
  "node_at [] t = Some t"
| "node_at (part # rest) t =
     (case t of
        FileNode _ \<Rightarrow> None
      | FolderNode ch \<Rightarrow> (case map_of ch part of None \<Rightarrow> None | Some c \<Rightarrow> node_at rest c))"

text \<open>A write through a reference: the children of the folder at \<open>addr\<close> become \<open>f\<close> of them.\<close>

fun modify_at ::
  "string list \<Rightarrow> ((string \<times> FileSystemNode) list \<Rightarrow> (string \<times> FileSystemNode) list)
     \<Rightarrow> FileSystemNode \<Rightarrow> FileSystemNode" where
  "modify_at [] f t = (case t of FileNode c \<Rightarrow> FileNode c | FolderNode ch \<Rightarrow> FolderNode (f ch))"
| "modify_at (part # rest) f t =
     (case t of
        FileNode c \<Rightarrow> FileNode c
      | FolderNode ch \<Rightarrow>
          (case map_of ch part of
             None \<Rightarrow> FolderNode ch
           | Some c \<Rightarrow> FolderNode (AList.update part (modify_at rest f c) ch)))"

text \<open>
  The result of \<open>traversePath\<close>. \<open>parent\<close> is a reference to a folder of the tree,
  modelled as the names leading to it from the root; \<open>None\<close> is \<open>null\<close>.
\<close>

record traversal =
  parent :: "string list option"
  node :: "FileSystemNode option"
  key :: string

definition traversePath ::
  "FileSystemTree \<Rightarrow> string \<Rightarrow> bool \<Rightarrow> FileSystemTree \<times> traversal" where
  "traversePath tree p createParents =
     (let parts = path_parts p in
      if parts = [] then (tree, \<lparr>parent = None, node = Some tree, key = []\<rparr>)
      else
        (let (tree', ok) = descend createParents (butlast parts) tree in
         if \<not> ok then (tree', \<lparr>parent = None, node = None, key = []\<rparr>)
         else (tree', \<lparr>parent = Some (butlast parts),
                       node = node_at parts tree',
                       key = last parts\<rparr>)))"

text \<open>\<open>findNodeByPath\<close>.\<close>

definition findNodeByPath :: "string \<Rightarrow> FileSystemTree \<Rightarrow> FileSystemNode option" where
  "findNodeByPath p tree = node_at (path_parts p) tree"

text \<open>
  One iteration of the loop of \<open>applyFileOperations\<close>: the body of the \<open>try\<close>. The
  result is the tree after the iteration and the message of the error thrown, if any;
  whatever was written before a \<open>throw\<close> stays written.
\<close>

definition apply_operation :: "FileSystemTree \<Rightarrow> FileOperation \<Rightarrow> FileSystemTree \<times> string option" where
  "apply_operation newTree op =
     (if operation op = CREATE_FILE \<or> operation op = UPDATE_FILE then
        (let (t, r) = traversePath newTree (path op) True in
         case parent r of
           Some a \<Rightarrow>
             if key r \<noteq> [] then
               (modify_at a (AList.update (key r)
                   (FileNode (case op_content op of None \<Rightarrow> [] | Some c \<Rightarrow> c))) t, None)
             else (t, Some (''Invalid path for CREATE/UPDATE: '' @ path op))
         | None \<Rightarrow> (t, Some (''Invalid path for CREATE/UPDATE: '' @ path op)))
      else if operation op = CREATE_FOLDER then
        (let (t, r) = traversePath newTree (path op) True in
         case parent r of
           Some a \<Rightarrow>
             if key r \<noteq> [] \<and> node_at (a @ [key r]) t = None then
               (modify_at a (AList.update (key r) (FolderNode [])) t, None)
             else if key r = [] then (t, Some (''Invalid path for CREATE_FOLDER: '' @ path op))
             else (t, None)
         | None \<Rightarrow> (t, Some (''Invalid path for CREATE_FOLDER: '' @ path op)))
      else if operation op = DELETE_FILE \<or> operation op = DELETE_FOLDER then
        (let (t, r) = traversePath newTree (path op) False in
         case parent r of
           Some a \<Rightarrow>
             if node r \<noteq> None \<and> key r \<noteq> [] then (modify_at a (AList.delete (key r)) t, None)
             else (t, None)
         | None \<Rightarrow> (t, None))
      else
        (case newPath op of
           None \<Rightarrow> (newTree, Some (''Missing newPath for RENAME on '' @ path op))
         | Some np \<Rightarrow>
             if np = [] then (newTree, Some (''Missing newPath for RENAME on '' @ path op))
             else
               (let (t, r) = traversePath newTree (path op) False in
                case (parent r, node r) of
                  (Some oldParent, Some n) \<Rightarrow>
                    if key r = [] then (t, Some (''Source path not found for RENAME: '' @ path op))
                    else
                      (let t1 = modify_at oldParent (AList.delete (key r)) t;
                           (t2, r2) = traversePath t1 np True in
                       case parent r2 of
                         Some newParent \<Rightarrow>
                           if key r2 \<noteq> [] then
                             (modify_at newParent (AList.update (key r2) n) t2, None)
                           else (t2, Some (''Invalid destination path for RENAME: '' @ np))
                       | None \<Rightarrow> (t2, Some (''Invalid destination path for RENAME: '' @ np)))
                | _ \<Rightarrow> (t, Some (''Source path not found for RENAME: '' @ path op)))))"

text \<open>
  The loop: every operation is applied to the tree its predecessors left, and an error is
  caught and logged (\<open>console.error\<close>) with the operation. \<open>JSON.parse(JSON.stringify(tree))\<close>
  copies the tree, so the caller's tree is not touched; on values the copy is the identity.
\<close>

fun run_operations ::
  "FileSystemTree \<Rightarrow> FileOperation list \<Rightarrow> FileSystemTree \<times> (FileOperation \<times> string) list" where
  "run_operations t [] = (t, [])"
| "run_operations t (op # ops) =
     (let (t', e) = apply_operation t op;
          (t'', log) = run_operations t' ops
      in (t'', (case e of None \<Rightarrow> [] | Some m \<Rightarrow> [(op, m)]) @ log))"

definition applyFileOperations :: "FileSystemTree \<Rightarrow> FileOperation list \<Rightarrow> FileSystemTree" where
  "applyFileOperations tree operations = fst (run_operations tree operations)"

section \<open>Text functions of the platform\<close>

text \<open>
  \<open>s.indexOf(sub)\<close>: the first position at which \<open>sub\<close> occurs in \<open>s\<close>, or \<open>-1\<close>.
\<close>

fun find_first :: "string \<Rightarrow> string \<Rightarrow> nat option" where
  "find_first sub [] = (if sub = [] then Some 0 else None)"
| "find_first sub (x # xs) =
     (if prefix sub (x # xs) then Some 0 else map_option Suc (find_first sub xs))"

definition indexOf :: "string \<Rightarrow> string \<Rightarrow> int" where
  "indexOf s sub = (case find_first sub s of None \<Rightarrow> - 1 | Some i \<Rightarrow> int i)"

text \<open>
  \<open>s.substring(0, i)\<close> and \<open>s.substring(i)\<close>; the source calls them with an index that
  \<open>indexOf\<close> found, so never with a negative one.
\<close>

definition substring_to :: "string \<Rightarrow> int \<Rightarrow> string" where
  "substring_to s i = take (nat i) s"

definition substring_from :: "string \<Rightarrow> int \<Rightarrow> string" where
  "substring_from s i = drop (nat i) s"

text \<open>
  White space as \<open>trim\<close> and the class \<open>\s\<close> of a regular expression see it, among the
  characters below 256: tab, line feed, vertical tab, form feed, carriage return, space
  and the no-break space.
\<close>

definition is_space :: "char \<Rightarrow> bool" where
  "is_space c \<longleftrightarrow> c \<in> {CHR 0x09, CHR 0x0A, CHR 0x0B, CHR 0x0C, CHR 0x0D, CHR 0x20, CHR 0xA0}"

definition trim_end :: "string \<Rightarrow> string" where
  "trim_end s = rev (dropWhile is_space (rev s))"

definition trim :: "string \<Rightarrow> string" where
  "trim s = trim_end (dropWhile is_space s)"

text \<open>
  The regular expressions the source needs: a sequence of literals, optional literals,
  greedy repetitions of a character class, one capturing group that is a lazy repetition
  of a class, and the end of the input. \<open>rmatch\<close> is the backtracking search of a
  JavaScript engine, anchored at the start of the text: an optional item and a greedy
  repetition try the longer match first, a lazy one the shorter, and the first way of
  matching the whole sequence wins. The result is the text of the group, or \<open>None\<close>
  when there is no match.
\<close>

datatype char_class = Space | Any

fun in_class :: "char_class \<Rightarrow> char \<Rightarrow> bool" where
  "in_class Space c = is_space c"
| "in_class Any c = True"

datatype regex_item =
    Lit string
  | Opt string
  | Star char_class
  | LazyGroup char_class
  | End

fun rmatch :: "regex_item list \<Rightarrow> string \<Rightarrow> string \<Rightarrow> string option" where
  "rmatch [] s cap = Some cap"
| "rmatch (Lit l # items) s cap =
     (if prefix l s then rmatch items (drop (length l) s) cap else None)"
| "rmatch (Opt l # items) s cap =
     (if prefix l s then
        (case rmatch items (drop (length l) s) cap of
           Some g \<Rightarrow> Some g
         | None \<Rightarrow> rmatch items s cap)
      else rmatch items s cap)"
| "rmatch (Star k # items) [] cap = rmatch items [] cap"
| "rmatch (Star k # items) (c # cs) cap =
     (if in_class k c then
        (case rmatch (Star k # items) cs cap of
           Some g \<Rightarrow> Some g
         | None \<Rightarrow> rmatch items (c # cs) cap)
      else rmatch items (c # cs) cap)"
| "rmatch (LazyGroup k # items) s cap =
     (case rmatch items s cap of
        Some g \<Rightarrow> Some g
      | None \<Rightarrow>
          (case s of
             [] \<Rightarrow> None
           | c # cs \<Rightarrow>
               if in_class k c then rmatch (LazyGroup k # items) cs (cap @ [c]) else None))"
| "rmatch (End # items) s cap = (if s = [] then rmatch items s cap else None)"

text \<open>\<^verbatim>\<open>/^```(?:json)?\s*([\s\S]*?)\s*```$/\<close>, and the first group of its match against a text.\<close>

definition fence_regex :: "regex_item list" where
  "fence_regex =
     [Lit ''```'', Opt ''json'', Star Space, LazyGroup Any, Star Space, Lit ''```'', End]"

definition fence_match :: "string \<Rightarrow> string option" where
  "fence_match s = rmatch fence_regex s []"

section \<open>The markers of a response and the Stream Framer (runAIGeneration, lines 225-242)\<close>

definition blueprintSeparator :: string where
  "blueprintSeparator = ''---JSON_BLUEPRINT---''"

definition opsSeparator :: string where
  "opsSeparator = ''---JSON_OPERATIONS---''"

text \<open>
  \<open>conversationalPart\<close> as the body of the loop computes it from \<open>fullResponseText\<close>
  (lines 232 to 236).
\<close>

definition conversational :: "string \<Rightarrow> string" where
  "conversational fullResponseText =
     (let blueprintIdx = indexOf fullResponseText blueprintSeparator;
          opsIdx = indexOf fullResponseText opsSeparator;
          separatorIdx = (if blueprintIdx \<noteq> - 1 then blueprintIdx else opsIdx)
      in if separatorIdx \<noteq> - 1 then substring_to fullResponseText separatorIdx
         else fullResponseText)"

text \<open>
  The two variables the loop carries. One step appends the chunk and recomputes the
  conversational part from the whole text.
\<close>

record framer =
  fullResponseText :: string
  conversationalPart :: string

definition framer_init :: framer where
  "framer_init = \<lparr>fullResponseText = [], conversationalPart = []\<rparr>"

definition framer_step :: "framer \<Rightarrow> string \<Rightarrow> framer" where
  "framer_step f chunk =
     (let full = fullResponseText f @ chunk
      in \<lparr>fullResponseText = full, conversationalPart = conversational full\<rparr>)"

definition framer_run :: "string list \<Rightarrow> framer" where
  "framer_run chunks = foldl framer_step framer_init chunks"

section \<open>JSON values and \<open>JSON.parse\<close>\<close>

text \<open>
  A parsed JSON value. A number keeps its text, since nothing here computes with it, and
  the members of an object are kept by key (a later duplicate replaces the value of an
  earlier one, as in JavaScript).
\<close>

datatype json =
    JNull
  | JBool bool
  | JNum string
  | JStr string
  | JArr "json list"
  | JObj "(string \<times> json) list"

text \<open>
  Truthiness of a parsed value: \<open>null\<close>, \<open>false\<close>, zero and the empty string are falsy.
  A number is taken to be zero when all the digits of its mantissa are; a literal so
  small that it rounds to zero is outside the model.
\<close>

definition num_is_zero :: "string \<Rightarrow> bool" where
  "num_is_zero lexeme \<longleftrightarrow>
     (\<forall>c \<in> set (takeWhile (\<lambda>c. c \<noteq> CHR ''e'' \<and> c \<noteq> CHR ''E'') lexeme).
        c = CHR ''-'' \<or> c = CHR ''.'' \<or> c = CHR ''0'')"

fun truthy :: "json \<Rightarrow> bool" where
  "truthy JNull = False"
| "truthy (JBool b) = b"
| "truthy (JNum n) = (\<not> num_is_zero n)"
| "truthy (JStr s) = (s \<noteq> [])"
| "truthy (JArr _) = True"
| "truthy (JObj _) = True"

text \<open>
  \<open>JSON.parse\<close> is a function of the platform, modelled here by a recursive-descent
  parser of the JSON grammar (ECMA-404). The text of the error it throws is left to the
  engine by the standard; the model throws one fixed message. An escape \<open>\uXXXX\<close> above
  \<open>00FF\<close> has no character in the model and is rejected.
\<close>

definition is_json_ws :: "char \<Rightarrow> bool" where
  "is_json_ws c \<longleftrightarrow> c \<in> {CHR 0x20, CHR 0x09, CHR 0x0A, CHR 0x0D}"

definition skip_ws :: "string \<Rightarrow> string" where
  "skip_ws s = dropWhile is_json_ws s"

definition is_digit :: "char \<Rightarrow> bool" where
  "is_digit c \<longleftrightarrow> c \<in> set ''0123456789''"

definition hex_value :: "char \<Rightarrow> nat option" where
  "hex_value c =
     (if c \<in> set ''0123456789'' then Some (of_char c - 48)
      else if c \<in> set ''abcdef'' then Some (of_char c - 87)
      else if c \<in> set ''ABCDEF'' then Some (of_char c - 55)
      else None)"

definition unicode_escape :: "string \<Rightarrow> char option" where
  "unicode_escape ds =
     (case map hex_value ds of
        [Some a, Some b, Some c, Some d] \<Rightarrow>
          if a = 0 \<and> b = 0 then Some (char_of (16 * c + d)) else None
      | _ \<Rightarrow> None)"

definition simple_escape :: "char \<Rightarrow> char option" where
  "simple_escape e =
     (if e = CHR 0x22 then Some (CHR 0x22)
      else if e = CHR 0x5C then Some (CHR 0x5C)
      else if e = CHR ''/'' then Some (CHR ''/'')
      else if e = CHR ''b'' then Some (CHR 0x08)
      else if e = CHR ''f'' then Some (CHR 0x0C)
      else if e = CHR ''n'' then Some (CHR 0x0A)
      else if e = CHR ''r'' then Some (CHR 0x0D)
      else if e = CHR ''t'' then Some (CHR 0x09)
      else None)"

text \<open>A string after its opening quote: its characters and the text after the closing quote.\<close>

fun lex_string :: "string \<Rightarrow> (string \<times> string) option" where
  "lex_string [] = None"
| "lex_string (c # cs) =
     (if c = CHR 0x22 then Some ([], cs)
      else if c = CHR 0x5C then
        (case cs of
           [] \<Rightarrow> None
         | e # cs' \<Rightarrow>
             if e = CHR ''u'' then
               (case unicode_escape (take 4 cs') of
                  None \<Rightarrow> None
                | Some ch \<Rightarrow>
                    (case lex_string (drop 4 cs') of
                       None \<Rightarrow> None
                     | Some (s, r) \<Rightarrow> Some (ch # s, r)))
             else
               (case simple_escape e of
                  None \<Rightarrow> None
                | Some ch \<Rightarrow>
                    (case lex_string cs' of
                       None \<Rightarrow> None
                     | Some (s, r) \<Rightarrow> Some (ch # s, r))))
      else if (of_char c :: nat) < 32 then None
      else (case lex_string cs of None \<Rightarrow> None | Some (s, r) \<Rightarrow> Some (c # s, r)))"

text \<open>
  A number: an optional minus, \<open>0\<close> or a digit sequence not starting with \<open>0\<close>, an
  optional fraction and an optional exponent. The result is its text and what follows.
\<close>

definition lex_digits :: "string \<Rightarrow> (string \<times> string) option" where
  "lex_digits s = (if takeWhile is_digit s = [] then None
                   else Some (takeWhile is_digit s, dropWhile is_digit s))"

definition lex_number :: "string \<Rightarrow> (string \<times> string) option" where
  "lex_number s =
     (let (sign, s1) = (if prefix ''-'' s then (''-'', drop 1 s) else ([], s)) in
      case (if prefix ''0'' s1 then Some (''0'', drop 1 s1) else lex_digits s1) of
        None \<Rightarrow> None
      | Some (ip, s2) \<Rightarrow>
          (case (if prefix ''.'' s2
                 then map_option (\<lambda>(d, r). (CHR ''.'' # d, r)) (lex_digits (drop 1 s2))
                 else Some ([], s2)) of
             None \<Rightarrow> None
           | Some (fp, s3) \<Rightarrow>
               (if prefix ''e'' s3 \<or> prefix ''E'' s3 then
                  (let s4 = drop 1 s3;
                       (es, s5) = (if prefix ''+'' s4 \<or> prefix ''-'' s4
                                   then (take 1 s4, drop 1 s4) else ([], s4))
                   in case lex_digits s5 of
                        None \<Rightarrow> None
                      | Some (ed, s6) \<Rightarrow> Some (sign @ ip @ fp @ take 1 s3 @ es @ ed, s6))
                else Some (sign @ ip @ fp, s3))))"

text \<open>
  The values. \<open>parse_value\<close> reads one value after any white space and returns it with
  the text that follows; \<open>parse_elements\<close> reads the elements of a non-empty array up
  to its closing bracket and \<open>parse_members\<close> the members of a non-empty object up to
  its closing brace. The tests that the remaining text got shorter always succeed; they
  are what makes the recursion well-founded.
\<close>

function parse_value :: "string \<Rightarrow> (json \<times> string) option"
  and parse_elements :: "string \<Rightarrow> (json list \<times> string) option"
  and parse_members :: "string \<Rightarrow> ((string \<times> json) list \<times> string) option"
where
  "parse_value [] = None"
| "parse_value (c # cs) =
     (if is_json_ws c then parse_value cs
      else if c = CHR ''{'' then
        (case skip_ws cs of
           [] \<Rightarrow> None
         | d # r \<Rightarrow>
             if d = CHR ''}'' then Some (JObj [], r)
             else (case parse_members cs of
                     None \<Rightarrow> None
                   | Some (ms, r') \<Rightarrow>
                       Some (JObj (foldl (\<lambda>m (k, v). AList.update k v m) [] ms), r')))
      else if c = CHR ''['' then
        (case skip_ws cs of
           [] \<Rightarrow> None
         | d # r \<Rightarrow>
             if d = CHR '']'' then Some (JArr [], r)
             else (case parse_elements cs of
                     None \<Rightarrow> None
                   | Some (vs, r') \<Rightarrow> Some (JArr vs, r')))
      else if c = CHR 0x22 then
        (case lex_string cs of None \<Rightarrow> None | Some (s, r) \<Rightarrow> Some (JStr s, r))
      else if prefix ''true'' (c # cs) then Some (JBool True, drop 4 (c # cs))
      else if prefix ''false'' (c # cs) then Some (JBool False, drop 5 (c # cs))
      else if prefix ''null'' (c # cs) then Some (JNull, drop 4 (c # cs))
      else (case lex_number (c # cs) of None \<Rightarrow> None | Some (n, r) \<Rightarrow> Some (JNum n, r)))"
| "parse_elements s =
     (case parse_value s of
        None \<Rightarrow> None
      | Some (v, r) \<Rightarrow>
          if length r < length s then
            (case skip_ws r of
               [] \<Rightarrow> None
             | d # r' \<Rightarrow>
                 if d = CHR '']'' then Some ([v], r')
                 else if d = CHR '','' then
                   (case parse_elements r' of
                      None \<Rightarrow> None
                    | Some (vs, r'') \<Rightarrow> Some (v # vs, r''))
                 else None)
          else None)"
| "parse_members s =
     (case skip_ws s of
        [] \<Rightarrow> None
      | q # s1 \<Rightarrow>
          if q = CHR 0x22 then
            (case lex_string s1 of
               None \<Rightarrow> None
             | Some (k, s2) \<Rightarrow>
                 (case skip_ws s2 of
                    [] \<Rightarrow> None
                  | col # s3 \<Rightarrow>
                      if col = CHR '':'' \<and> length s3 < length s then
                        (case parse_value s3 of
                           None \<Rightarrow> None
                         | Some (v, r) \<Rightarrow>
                             if length r < length s3 then
                               (case skip_ws r of
                                  [] \<Rightarrow> None
                                | d # r' \<Rightarrow>
                                    if d = CHR ''}'' then Some ([(k, v)], r')
                                    else if d = CHR '','' then
                                      (case parse_members r' of
                                         None \<Rightarrow> None
                                       | Some (ms, r'') \<Rightarrow> Some ((k, v) # ms, r''))
                                    else None)
                             else None)
                      else None))
          else None)"
  by pat_completeness auto
termination
proof (relation "measure (\<lambda>x. case x of
          Inl s \<Rightarrow> 2 * length s
        | Inr (Inl s) \<Rightarrow> 2 * length s + 1
        | Inr (Inr s) \<Rightarrow> 2 * length s + 1)", goal_cases)
  case 1
  show ?case by simp
next
  case (2 c cs)
  then show ?case by simp
next
  case (3 c cs d r)
  then show ?case by simp
next
  case (4 c cs d r)
  then show ?case by simp
next
  case (5 s)
  then show ?case by simp
next
  case (6 s x v r d r')
  have "length (skip_ws r) \<le> length r" by (simp add: skip_ws_def length_dropWhile_le)
  with 6 show ?case by simp
next
  case (7 s q s1 x k s2 col s3)
  then show ?case by simp
next
  case (8 s q s1 x k s2 col s3 y v r d r')
  have "length (skip_ws r) \<le> length r" by (simp add: skip_ws_def length_dropWhile_le)
  with 8 show ?case by simp
qed

text \<open>\<open>JSON.parse(text)\<close>: one value, with nothing but white space around it.\<close>

definition JSON_parse :: "string \<Rightarrow> string + json" where
  "JSON_parse s =
     (case parse_value s of
        None \<Rightarrow> Inl ''Unexpected token in JSON''
      | Some (v, r) \<Rightarrow> if skip_ws r = [] then Inr v else Inl ''Unexpected token in JSON'')"

section \<open>Tasks and workspaces (types.ts)\<close>

datatype task_status =
  running | completed | error | pending_confirmation | pending_blueprint_approval

datatype task_origin = user | autopilot

record assistant_response =
  resp_content :: string
  operations :: "FileOperation list option"
  blueprint :: "json option"

text \<open>
  \<open>AITask\<close>. The field \<open>type\<close> is \<open>task_type\<close> here; the only test the code makes of it
  is \<open>type === 'autopilot'\<close>, so a task without the field behaves as a user task.
\<close>

record AITask =
  task_id :: string
  userPrompt :: string
  status :: task_status
  assistantResponse :: "assistant_response option"
  task_error :: "string option"
  timestamp :: nat
  task_type :: task_origin

record Workspace =
  ws_id :: string
  ws_name :: string
  fileSystem :: FileSystemTree
  tasks :: "AITask list"
  createdAt :: string

text \<open>
  The state of the component \<open>App\<close> that the task pipeline reads and writes;
  \<open>isAutoPilotOn\<close> stands for \<open>currentUiState.isAutoPilotOn\<close>.
\<close>

record App =
  workspaces :: "Workspace list"
  activeWorkspaceId :: "string option"
  isAutoPilotOn :: bool

text \<open>
  The two update patterns of the source: \<open>prev.map(ws => ws.id !== activeWorkspaceId ? ws : f(ws))\<close>
  and \<open>ws.tasks.map(task => task.id === taskId ? f(task) : task)\<close>.
\<close>

definition map_workspace :: "string \<Rightarrow> (Workspace \<Rightarrow> Workspace) \<Rightarrow> Workspace list \<Rightarrow> Workspace list" where
  "map_workspace activeId f prev = map (\<lambda>ws. if ws_id ws \<noteq> activeId then ws else f ws) prev"

definition map_task :: "string \<Rightarrow> (AITask \<Rightarrow> AITask) \<Rightarrow> AITask list \<Rightarrow> AITask list" where
  "map_task taskId f ts = map (\<lambda>task. if task_id task = taskId then f task else task) ts"

definition activeWorkspace :: "App \<Rightarrow> Workspace option" where
  "activeWorkspace app =
     (case activeWorkspaceId app of
        None \<Rightarrow> None
      | Some a \<Rightarrow> find (\<lambda>w. ws_id w = a) (workspaces app))"

section \<open>The Payload Decoder (runAIGeneration, lines 244-268)\<close>

text \<open>
  \<open>jsonPartRaw.trim().match(...)?.[1] || jsonPartRaw.trim()\<close>: the group of the fence when
  there is a match and the group is not empty, the trimmed text otherwise.
\<close>

definition jsonString :: "string \<Rightarrow> string" where
  "jsonString jsonPartRaw =
     (case fence_match (trim jsonPartRaw) of
        None \<Rightarrow> trim jsonPartRaw
      | Some g \<Rightarrow> if g \<noteq> [] then g else trim jsonPartRaw)"

text \<open>
  The cast \<open>as { operations: FileOperation[] }\<close> is not checked when the program runs. The
  model is typed, so it reads the parsed value at the declared type: an operation is an
  object whose \<open>operation\<close> is one of the seven names and whose \<open>path\<close> is a string;
  \<open>content\<close> and \<open>newPath\<close> are strings or absent, and a falsy value there counts as
  absent, since the code tests both for truthiness before any use. A value that does not
  fit has no counterpart in the model (\<open>None\<close>).
\<close>

definition as_FileOperationType :: "json \<Rightarrow> FileOperationType option" where
  "as_FileOperationType v =
     (case v of
        JStr s \<Rightarrow>
          if s = ''CREATE_FILE'' then Some CREATE_FILE
          else if s = ''UPDATE_FILE'' then Some UPDATE_FILE
          else if s = ''DELETE_FILE'' then Some DELETE_FILE
          else if s = ''CREATE_FOLDER'' then Some CREATE_FOLDER
          else if s = ''DELETE_FOLDER'' then Some DELETE_FOLDER
          else if s = ''RENAME_FILE'' then Some RENAME_FILE
          else if s = ''RENAME_FOLDER'' then Some RENAME_FOLDER
          else None
      | _ \<Rightarrow> None)"

definition optional_string :: "json option \<Rightarrow> string option option" where
  "optional_string f =
     (case f of
        None \<Rightarrow> Some None
      | Some (JStr s) \<Rightarrow> Some (Some s)
      | Some v \<Rightarrow> if truthy v then None else Some None)"

definition as_FileOperation :: "json \<Rightarrow> FileOperation option" where
  "as_FileOperation v =
     (case v of
        JObj m \<Rightarrow>
          (case (case map_of m ''operation'' of None \<Rightarrow> None | Some k \<Rightarrow> as_FileOperationType k,
                 map_of m ''path'',
                 optional_string (map_of m ''content''),
                 optional_string (map_of m ''newPath'')) of
             (Some k, Some (JStr p), Some c, Some n) \<Rightarrow>
               Some \<lparr>operation = k, path = p, op_content = c, newPath = n\<rparr>
           | _ \<Rightarrow> None)
      | _ \<Rightarrow> None)"

definition as_FileOperations :: "json \<Rightarrow> FileOperation list option" where
  "as_FileOperations v = (case v of JArr vs \<Rightarrow> those (map as_FileOperation vs) | _ \<Rightarrow> None)"

text \<open>
  The local variables of \<open>runAIGeneration\<close> when line 269 is reached, or the error
  thrown on the way. \<open>Ill_typed\<close> is a payload whose \<open>operations\<close> the model cannot type.
\<close>

record decoded =
  finalConversationalPart :: string
  fileOps :: "FileOperation list"
  parsed_blueprint :: "json option"
  final_status :: task_status

datatype decode_outcome = Decoded decoded | Thrown string | Ill_typed

text \<open>
  \<open>(JSON.parse(jsonString) as { operations: FileOperation[] }).operations || []\<close>, given
  the parsed value. Reading a property of \<open>null\<close> throws a \<open>TypeError\<close> (inside the
  \<open>try\<close>), whose message is the engine's and is one fixed text here; only an object has
  a property \<open>operations\<close>; a value without the property or with a falsy one gives the
  empty list.
\<close>

definition operations_property :: "json \<Rightarrow> json option" where
  "operations_property v = (case v of JObj m \<Rightarrow> map_of m ''operations'' | _ \<Rightarrow> None)"

definition operations_of :: "json \<Rightarrow> string + FileOperation list option" where
  "operations_of v =
     (if v = JNull then Inl ''Cannot read properties of null''
      else (case operations_property v of
              None \<Rightarrow> Inr (Some [])
            | Some f \<Rightarrow> if truthy f then Inr (as_FileOperations f) else Inr (Some [])))"

text \<open>
  Lines 244 to 268. \<open>parse\<close> is \<open>JSON.parse\<close>: its result is the message of the error it
  throws or the value.
\<close>

definition decode_response :: "(string \<Rightarrow> string + json) \<Rightarrow> bool \<Rightarrow> string \<Rightarrow> decode_outcome" where
  "decode_response parse isAutoPilot responseText =
     (let blueprintIndex = indexOf responseText blueprintSeparator;
          opsIndex = indexOf responseText opsSeparator
      in
      if blueprintIndex \<noteq> - 1 then
        (let conv = trim (substring_to responseText blueprintIndex);
             jsonPartRaw = substring_from responseText
                             (blueprintIndex + int (length blueprintSeparator))
         in case parse (jsonString jsonPartRaw) of
              Inl m \<Rightarrow> Thrown (''Failed to parse blueprint from AI. '' @ m)
            | Inr v \<Rightarrow>
                Decoded \<lparr>finalConversationalPart = conv, fileOps = [],
                         parsed_blueprint = Some v,
                         final_status = pending_blueprint_approval\<rparr>)
      else if opsIndex \<noteq> - 1 then
        (let conv = trim (substring_to responseText opsIndex);
             jsonPartRaw = substring_from responseText
                             (opsIndex + int (length opsSeparator))
         in case parse (jsonString jsonPartRaw) of
              Inl m \<Rightarrow> Thrown (''Failed to parse file operations from AI. '' @ m)
            | Inr v \<Rightarrow>
                (case operations_of v of
                   Inl m \<Rightarrow> Thrown (''Failed to parse file operations from AI. '' @ m)
                 | Inr None \<Rightarrow> Ill_typed
                 | Inr (Some ops) \<Rightarrow>
                     Decoded \<lparr>finalConversationalPart = conv, fileOps = ops,
                              parsed_blueprint = None,
                              final_status =
                                (if isAutoPilot then completed else pending_confirmation)\<rparr>))
      else
        Decoded \<lparr>finalConversationalPart = responseText, fileOps = [],
                 parsed_blueprint = None, final_status = completed\<rparr>)"

section \<open>The Task Lifecycle Controller\<close>

text \<open>The update of lines 238 to 241, made after every chunk.\<close>

definition show_conversational :: "string \<Rightarrow> string \<Rightarrow> Workspace \<Rightarrow> Workspace" where
  "show_conversational taskId conv ws =
     ws\<lparr>tasks := map_task taskId
           (\<lambda>task. task\<lparr>assistantResponse :=
              Some \<lparr>resp_content = conv, operations = None, blueprint = None\<rparr>\<rparr>)
           (tasks ws)\<rparr>"

text \<open>The update of lines 270 to 278, made when the stream has ended and was decoded.\<close>

definition complete_update :: "string \<Rightarrow> bool \<Rightarrow> decoded \<Rightarrow> Workspace \<Rightarrow> Workspace" where
  "complete_update taskId isAutoPilot d ws =
     (let newFileSystem =
            (if isAutoPilot \<and> length (fileOps d) > 0
             then applyFileOperations (fileSystem ws) (fileOps d)
             else fileSystem ws)
      in ws\<lparr>fileSystem := newFileSystem,
            tasks := map_task taskId
              (\<lambda>task. task\<lparr>status := final_status d,
                 assistantResponse :=
                   Some \<lparr>resp_content = finalConversationalPart d,
                         operations = Some (fileOps d),
                         blueprint = (case parsed_blueprint d of
                                        None \<Rightarrow> None
                                      | Some b \<Rightarrow> if truthy b then Some b else None)\<rparr>\<rparr>)
              (tasks ws)\<rparr>)"

text \<open>The update of line 283, made by the \<open>catch\<close> of \<open>runAIGeneration\<close>.\<close>

definition fail_update :: "string \<Rightarrow> string \<Rightarrow> Workspace \<Rightarrow> Workspace" where
  "fail_update taskId errorMessage ws =
     ws\<lparr>tasks := map_task taskId
           (\<lambda>task. task\<lparr>status := error, task_error := Some errorMessage\<rparr>) (tasks ws)\<rparr>"

text \<open>
  What the text source delivers: the chunks, and the message of the error with which it
  ends when it fails.
\<close>

record ai_stream =
  chunks :: "string list"
  failure :: "string option"

definition stream_step ::
  "string \<Rightarrow> string \<Rightarrow> framer \<times> Workspace list \<Rightarrow> string \<Rightarrow> framer \<times> Workspace list" where
  "stream_step activeId taskId s chunk =
     (let f = framer_step (fst s) chunk
      in (f, map_workspace activeId (show_conversational taskId (conversationalPart f)) (snd s)))"

text \<open>
  \<open>runAIGeneration\<close>, run from its call to its last update with no other event in
  between. The result is \<open>None\<close> only for a payload the model cannot type.
\<close>

definition runAIGeneration ::
  "(string \<Rightarrow> string + json) \<Rightarrow> ai_stream \<Rightarrow> string \<Rightarrow> bool \<Rightarrow> App \<Rightarrow> App option" where
  "runAIGeneration parse stream taskId isAutoPilot app =
     (case activeWorkspaceId app of
        None \<Rightarrow> Some app
      | Some activeId \<Rightarrow>
          if find (\<lambda>w. ws_id w = activeId) (workspaces app) = None then Some app
          else
            (let (f, wss) = foldl (stream_step activeId taskId)
                              (framer_init, workspaces app) (chunks stream)
             in case failure stream of
                  Some m \<Rightarrow>
                    Some (app\<lparr>workspaces := map_workspace activeId (fail_update taskId m) wss\<rparr>)
                | None \<Rightarrow>
                    (case decode_response parse isAutoPilot (fullResponseText f) of
                       Decoded d \<Rightarrow>
                         Some (app\<lparr>workspaces :=
                           map_workspace activeId (complete_update taskId isAutoPilot d) wss\<rparr>)
                     | Thrown m \<Rightarrow>
                         Some (app\<lparr>workspaces :=
                           map_workspace activeId (fail_update taskId m) wss\<rparr>)
                     | Ill_typed \<Rightarrow> None)))"

text \<open>
  The handlers. The identifier of a new task (\<open>crypto.randomUUID()\<close>) and its time are
  arguments.
\<close>

definition add_task :: "AITask \<Rightarrow> App \<Rightarrow> App" where
  "add_task newTask app =
     (case activeWorkspaceId app of
        None \<Rightarrow> app
      | Some a \<Rightarrow>
          app\<lparr>workspaces := map_workspace a (\<lambda>ws. ws\<lparr>tasks := newTask # tasks ws\<rparr>)
                               (workspaces app)\<rparr>)"

definition handleCreateTask ::
  "(string \<Rightarrow> string + json) \<Rightarrow> ai_stream \<Rightarrow> string \<Rightarrow> string \<Rightarrow> nat \<Rightarrow> App \<Rightarrow> App option" where
  "handleCreateTask parse stream prompt taskId now app =
     (if trim prompt = [] \<or> activeWorkspaceId app = None then Some app
      else runAIGeneration parse stream taskId False
             (add_task \<lparr>task_id = taskId, userPrompt = prompt, status = running,
                        assistantResponse = None, task_error = None, timestamp = now,
                        task_type = user\<rparr> app))"

text \<open>
  \<open>handleApproveBlueprint\<close> up to its \<open>await\<close>: the task goes back to \<open>running\<close>; \<open>None\<close>
  when the handler returns early. The generation that follows runs without the
  auto-pilot flag, whatever the origin of the task.
\<close>

definition approve_blueprint_begin :: "string \<Rightarrow> App \<Rightarrow> App option" where
  "approve_blueprint_begin taskId app =
     (case activeWorkspaceId app of
        None \<Rightarrow> None
      | Some a \<Rightarrow>
          (case (case activeWorkspace app of
                   None \<Rightarrow> None
                 | Some ws \<Rightarrow> find (\<lambda>t. task_id t = taskId) (tasks ws)) of
             None \<Rightarrow> None
           | Some task \<Rightarrow>
               (case (case assistantResponse task of None \<Rightarrow> None | Some r \<Rightarrow> blueprint r) of
                  None \<Rightarrow> None
                | Some b \<Rightarrow>
                    if \<not> truthy b then None
                    else Some (app\<lparr>workspaces := map_workspace a
                                 (\<lambda>ws. ws\<lparr>tasks := map_task taskId (\<lambda>t. t\<lparr>status := running\<rparr>)
                                                    (tasks ws)\<rparr>)
                                 (workspaces app)\<rparr>))))"

definition handleApproveBlueprint ::
  "(string \<Rightarrow> string + json) \<Rightarrow> ai_stream \<Rightarrow> string \<Rightarrow> App \<Rightarrow> App option" where
  "handleApproveBlueprint parse stream taskId app =
     (case approve_blueprint_begin taskId app of
        None \<Rightarrow> Some app
      | Some app1 \<Rightarrow> runAIGeneration parse stream taskId False app1)"

definition autopilot_running :: "Workspace \<Rightarrow> bool" where
  "autopilot_running ws \<longleftrightarrow> (\<exists>t \<in> set (tasks ws). task_type t = autopilot \<and> status t = running)"

text \<open>
  \<open>handleAutoPilotTick\<close> up to its \<open>await\<close>: the single-flight test and the new task;
  \<open>None\<close> when the handler returns early.
\<close>

definition autopilot_tick_begin :: "string \<Rightarrow> nat \<Rightarrow> App \<Rightarrow> App option" where
  "autopilot_tick_begin taskId now app =
     (case activeWorkspace app of
        None \<Rightarrow> None
      | Some currentWorkspace \<Rightarrow>
          if autopilot_running currentWorkspace then None
          else Some (add_task \<lparr>task_id = taskId, userPrompt = ''Proactive AI Step'',
                               status = running, assistantResponse = None, task_error = None,
                               timestamp = now, task_type = autopilot\<rparr> app))"

definition handleAutoPilotTick ::
  "(string \<Rightarrow> string + json) \<Rightarrow> ai_stream \<Rightarrow> string \<Rightarrow> nat \<Rightarrow> App \<Rightarrow> App option" where
  "handleAutoPilotTick parse stream taskId now app =
     (case autopilot_tick_begin taskId now app of
        None \<Rightarrow> Some app
      | Some app1 \<Rightarrow> runAIGeneration parse stream taskId True app1)"

text \<open>
  The effect of lines 335 to 339 keeps an interval timer only while auto-pilot is on, a
  workspace is active and no auto-pilot task is running; the timer calls
  \<open>handleAutoPilotTick\<close>. \<open>interval_tick\<close> is one period of it.
\<close>

definition autoPilotRunningTask :: "App \<Rightarrow> AITask option" where
  "autoPilotRunningTask app =
     (case activeWorkspace app of
        None \<Rightarrow> None
      | Some ws \<Rightarrow> find (\<lambda>t. task_type t = autopilot \<and> status t = running) (tasks ws))"

definition interval_armed :: "App \<Rightarrow> bool" where
  "interval_armed app \<longleftrightarrow>
     isAutoPilotOn app \<and> activeWorkspaceId app \<noteq> None \<and> autoPilotRunningTask app = None"

definition interval_tick ::
  "(string \<Rightarrow> string + json) \<Rightarrow> ai_stream \<Rightarrow> string \<Rightarrow> nat \<Rightarrow> App \<Rightarrow> App option" where
  "interval_tick parse stream taskId now app =
     (if interval_armed app then handleAutoPilotTick parse stream taskId now app else Some app)"

text \<open>\<open>handleApproveTask\<close> and \<open>handleRejectTask\<close>: the update of one workspace, then the handler.\<close>

definition approve_update :: "string \<Rightarrow> Workspace \<Rightarrow> Workspace" where
  "approve_update taskId ws =
     (case find (\<lambda>t. task_id t = taskId) (tasks ws) of
        None \<Rightarrow> ws
      | Some task \<Rightarrow>
          if status task \<noteq> pending_confirmation then ws
          else
            (case (case assistantResponse task of None \<Rightarrow> None | Some r \<Rightarrow> operations r) of
               None \<Rightarrow> ws
             | Some ops \<Rightarrow>
                 ws\<lparr>fileSystem := applyFileOperations (fileSystem ws) ops,
                    tasks := map_task taskId (\<lambda>t. t\<lparr>status := completed\<rparr>) (tasks ws)\<rparr>))"

definition handleApproveTask :: "string \<Rightarrow> App \<Rightarrow> App" where
  "handleApproveTask taskId app =
     (case activeWorkspaceId app of
        None \<Rightarrow> app
      | Some a \<Rightarrow> app\<lparr>workspaces := map_workspace a (approve_update taskId) (workspaces app)\<rparr>)"

definition reject_update :: "string \<Rightarrow> Workspace \<Rightarrow> Workspace" where
  "reject_update taskId ws =
     ws\<lparr>tasks := map_task taskId (\<lambda>t. t\<lparr>status := completed\<rparr>) (tasks ws)\<rparr>"

definition handleRejectTask :: "string \<Rightarrow> App \<Rightarrow> App" where
  "handleRejectTask taskId app =
     (case activeWorkspaceId app of
        None \<Rightarrow> app
      | Some a \<Rightarrow> app\<lparr>workspaces := map_workspace a (reject_update taskId) (workspaces app)\<rparr>)"

section \<open>Notions used to state the properties\<close>

text \<open>
  The match of the fence in closed form (lemma \<open>fence_match_closed\<close>): three backquotes,
  the word \<open>json\<close> if it is there, the white space that follows, then a remainder that
  must end with three backquotes; the group is that remainder without the closing
  backquotes and without the white space before them.
\<close>

definition ends_with :: "string \<Rightarrow> string \<Rightarrow> bool" where
  "ends_with s e \<longleftrightarrow> prefix (rev e) (rev s)"

definition fence_group :: "string \<Rightarrow> string option" where
  "fence_group s =
     (if prefix ''```'' s then
        (let r1 = drop 3 s;
             r2 = (if prefix ''json'' r1 then drop 4 r1 else r1);
             r3 = dropWhile is_space r2
         in if ends_with r3 ''```'' then Some (trim_end (take (length r3 - 3) r3)) else None)
      else None)"

text \<open>
  The payload kind that wins for a text: the branch that lines 252 and 260 take once the
  stream has ended; the blueprint marker is tested first.
\<close>

datatype payload_kind = Blueprint | Operations | NoPayload

definition winning_kind :: "string \<Rightarrow> payload_kind" where
  "winning_kind responseText =
     (if indexOf responseText blueprintSeparator \<noteq> - 1 then Blueprint
      else if indexOf responseText opsSeparator \<noteq> - 1 then Operations
      else NoPayload)"

text \<open>The raw text after the winning marker: \<open>jsonPartRaw\<close> of the branch taken.\<close>

definition payload_tail :: "string \<Rightarrow> string" where
  "payload_tail responseText =
     (if indexOf responseText blueprintSeparator \<noteq> - 1 then
        substring_from responseText
          (indexOf responseText blueprintSeparator + int (length blueprintSeparator))
      else if indexOf responseText opsSeparator \<noteq> - 1 then
        substring_from responseText
          (indexOf responseText opsSeparator + int (length opsSeparator))
      else [])"

text \<open>The status of the task that \<open>tasks.find(t => t.id === taskId)\<close> finds.\<close>

definition status_of :: "string \<Rightarrow> Workspace \<Rightarrow> task_status option" where
  "status_of taskId ws = map_option status (find (\<lambda>t. task_id t = taskId) (tasks ws))"

text \<open>
  The workspace as the loop leaves it: the task shows the conversational part of the whole
  text, once a chunk has arrived.
\<close>

definition after_stream :: "string \<Rightarrow> string list \<Rightarrow> Workspace \<Rightarrow> Workspace" where
  "after_stream taskId cs ws =
     (if cs = [] then ws else show_conversational taskId (conversational (concat cs)) ws)"

text \<open>The auto-pilot tasks of a workspace that are running.\<close>

definition running_autopilot_tasks :: "Workspace \<Rightarrow> AITask list" where
  "running_autopilot_tasks ws = filter (\<lambda>t. task_type t = autopilot \<and> status t = running) (tasks ws)"

text \<open>
  A payload \<open>j\<close> wrapped in a fenced code block: three backquotes, a language tag,
  white space, the payload, white space, three backquotes.
\<close>

definition fenced :: "string \<Rightarrow> string \<Rightarrow> string \<Rightarrow> string \<Rightarrow> string" where
  "fenced tag ws1 j ws2 = ''```'' @ tag @ ws1 @ j @ ws2 @ ''```''"

text \<open>The characters with which a JSON value can begin.\<close>

definition value_start :: "char \<Rightarrow> bool" where
  "value_start c \<longleftrightarrow> c \<in> set ''{[-0123456789tfn'' \<or> c = CHR 0x22"

text \<open>
  The states of the instances below: an application with one workspace \<open>w1\<close>, which is
  active, and a task with given identifier, origin, status and response.
\<close>

definition example_task ::
  "string \<Rightarrow> task_origin \<Rightarrow> task_status \<Rightarrow> assistant_response option \<Rightarrow> string option \<Rightarrow> AITask" where
  "example_task i origin s r e =
     \<lparr>task_id = i, userPrompt = ''prompt'', status = s, assistantResponse = r,
      task_error = e, timestamp = 0, task_type = origin\<rparr>"

definition example_workspace :: "FileSystemTree \<Rightarrow> AITask list \<Rightarrow> Workspace" where
  "example_workspace fs ts =
     \<lparr>ws_id = ''w1'', ws_name = ''My First Project'', fileSystem = fs, tasks = ts,
      createdAt = ''2024''\<rparr>"

definition example_app :: "FileSystemTree \<Rightarrow> AITask list \<Rightarrow> App" where
  "example_app fs ts =
     \<lparr>workspaces = [example_workspace fs ts], activeWorkspaceId = Some ''w1'',
      isAutoPilotOn = True\<rparr>"

section \<open>Path resolution\<close>

lemma descend_create_ok: "snd (descend True ps (FolderNode [])) = True"
  by (induction ps) (auto simp: is_folder_def split: prod.splits)

lemma descend_create_fail_same: "snd (descend True ps t) = False \<Longrightarrow> fst (descend True ps t) = t"
proof (induction ps arbitrary: t)
  case Nil
  then show ?case by simp
next
  case (Cons p ps)
  show ?case
  proof (cases t)
    case (FileNode c)
    then show ?thesis by simp
  next
    case (FolderNode ch)
    show ?thesis
    proof (cases "map_of ch p")
      case None
      with Cons.prems FolderNode descend_create_ok [of ps] show ?thesis
        by (simp split: prod.splits)
    next
      case (Some child)
      with Cons.prems FolderNode have "snd (descend True ps child) = False"
        by (simp split: prod.splits)
      then have "fst (descend True ps child) = child" by (rule Cons.IH)
      with Some FolderNode show ?thesis
        by (auto simp: AList.update_triv split: prod.splits)
    qed
  qed
qed

lemma descend_nocreate_same: "fst (descend False ps t) = t"
proof (induction ps arbitrary: t)
  case Nil
  then show ?case by simp
next
  case (Cons p ps)
  show ?case
  proof (cases t)
    case (FileNode c)
    then show ?thesis by simp
  next
    case (FolderNode ch)
    show ?thesis
    proof (cases "map_of ch p")
      case None
      with FolderNode show ?thesis by simp
    next
      case (Some child)
      with FolderNode Cons.IH [of child] show ?thesis
        by (auto simp: AList.update_triv split: prod.splits)
    qed
  qed
qed

lemma descend_existing_folder:
  "node_at ps t = Some (FolderNode ch) \<Longrightarrow> descend cp ps t = (t, True)"
proof (induction ps arbitrary: t)
  case Nil
  then show ?case by (simp add: is_folder_def)
next
  case (Cons p ps)
  then obtain ch0 child where t: "t = FolderNode ch0" and c: "map_of ch0 p = Some child"
    and n: "node_at ps child = Some (FolderNode ch)"
    by (auto split: FileSystemNode.splits option.splits)
  from Cons.IH [OF n] t c show ?case
    by (simp add: AList.update_triv)
qed

lemma descend_through_file:
  "prefix q ps \<Longrightarrow> node_at q t = Some (FileNode c) \<Longrightarrow> descend cp ps t = (t, False)"
proof (induction ps arbitrary: t q)
  case Nil
  then show ?case by (simp add: is_folder_def)
next
  case (Cons p ps)
  show ?case
  proof (cases q)
    case Nil
    with Cons.prems show ?thesis by simp
  next
    case (Cons p' q')
    with Cons.prems have pp: "p' = p" and pre: "prefix q' ps" by simp_all
    from Cons.prems(2) Cons pp obtain ch0 child where t: "t = FolderNode ch0"
      and c: "map_of ch0 p = Some child" and n: "node_at q' child = Some (FileNode c)"
      by (auto split: FileSystemNode.splits option.splits)
    from Cons.IH [OF pre n] t c show ?thesis
      by (simp add: AList.update_triv)
  qed
qed

lemma node_at_snoc:
  "node_at (ps @ [k]) t = (case node_at ps t of Some (FolderNode ch) \<Rightarrow> map_of ch k | _ \<Rightarrow> None)"
  by (induction ps arbitrary: t) (auto split: FileSystemNode.splits option.splits)

lemma path_parts_nonempty: "s \<in> set (path_parts p) \<Longrightarrow> s \<noteq> []"
  by (simp add: path_parts_def)

lemma last_path_parts: "path_parts p \<noteq> [] \<Longrightarrow> last (path_parts p) \<noteq> []"
  using path_parts_nonempty [of "last (path_parts p)" p] by simp

lemma traversePath_existing:
  assumes ne: "path_parts p \<noteq> []" and n: "node_at (path_parts p) t = Some n"
  shows "traversePath t p cp =
    (t, \<lparr>parent = Some (butlast (path_parts p)), node = Some n, key = last (path_parts p)\<rparr>)"
proof -
  let ?ps = "path_parts p"
  from ne have sp: "?ps = butlast ?ps @ [last ?ps]" by simp
  from n sp have "node_at (butlast ?ps @ [last ?ps]) t = Some n" by simp
  then obtain ch where "node_at (butlast ?ps) t = Some (FolderNode ch)"
    by (auto simp: node_at_snoc split: option.splits FileSystemNode.splits)
  then have "descend cp (butlast ?ps) t = (t, True)" by (rule descend_existing_folder)
  with ne n show ?thesis by (simp add: traversePath_def Let_def)
qed

lemma traversePath_conflict:
  assumes "path_parts p = [] \<or>
    (\<exists>q c. prefix q (butlast (path_parts p)) \<and> node_at q t = Some (FileNode c))"
  shows "fst (traversePath t p cp) = t \<and> parent (snd (traversePath t p cp)) = None"
proof (cases "path_parts p = []")
  case True
  then show ?thesis by (simp add: traversePath_def)
next
  case False
  with assms obtain q c where "prefix q (butlast (path_parts p))" "node_at q t = Some (FileNode c)"
    by blast
  then have "descend cp (butlast (path_parts p)) t = (t, False)" by (rule descend_through_file)
  with False show ?thesis by (simp add: traversePath_def)
qed

lemma traversePath_null_same:
  assumes "parent (snd (traversePath t p cp)) = None"
  shows "fst (traversePath t p cp) = t"
proof (cases "path_parts p = []")
  case True
  then show ?thesis by (simp add: traversePath_def)
next
  case False
  with assms have f: "snd (descend cp (butlast (path_parts p)) t) = False"
    by (auto simp: traversePath_def Let_def split: prod.splits if_splits)
  have "fst (descend cp (butlast (path_parts p)) t) = t"
  proof (cases cp)
    case True
    with f show ?thesis by (simp add: descend_create_fail_same)
  next
    case False
    then show ?thesis by (simp add: descend_nocreate_same)
  qed
  with False f show ?thesis
    by (auto simp: traversePath_def Let_def split: prod.splits)
qed

lemma traversePath_key: "parent (snd (traversePath t p cp)) \<noteq> None \<Longrightarrow> key (snd (traversePath t p cp)) \<noteq> []"
  by (auto simp: traversePath_def Let_def last_path_parts split: prod.splits if_splits)

lemma apply_operation_failed_same:
  assumes "apply_operation t op = (t', Some m)"
    and "operation op \<noteq> RENAME_FILE" "operation op \<noteq> RENAME_FOLDER"
  shows "t' = t"
proof -
  have c: "\<And>t2 r. traversePath t (path op) True = (t2, r) \<Longrightarrow> parent r = None \<Longrightarrow> t2 = t"
    using traversePath_null_same [of t "path op" True] by simp
  have k: "\<And>t2 r. traversePath t (path op) True = (t2, r) \<Longrightarrow> parent r \<noteq> None \<Longrightarrow> key r \<noteq> []"
    using traversePath_key [of t "path op" True] by simp
  from assms show ?thesis
    by (cases "operation op")
       (auto simp: apply_operation_def split: prod.splits option.splits if_splits dest: c k)
qed


lemma run_operations_append:
  "fst (run_operations t (xs @ ys)) = fst (run_operations (fst (run_operations t xs)) ys)"
  by (induction xs arbitrary: t) (simp_all add: split_beta)

lemma applyFileOperations_append:
  "applyFileOperations t (xs @ ys) = applyFileOperations (applyFileOperations t xs) ys"
  by (simp add: applyFileOperations_def run_operations_append)

text \<open>
  What does hold of failure isolation: an operation other than a rename that throws
  where the batch reaches it can be dropped from the batch without changing the result.
\<close>

lemma failed_operation_skipped:
  assumes "apply_operation (applyFileOperations t xs) op = (t', Some m)"
    and "operation op \<noteq> RENAME_FILE" "operation op \<noteq> RENAME_FOLDER"
  shows "applyFileOperations t (xs @ op # ys) = applyFileOperations t (xs @ ys)"
proof -
  from assms have "t' = applyFileOperations t xs" by (rule apply_operation_failed_same)
  with assms(1) have "applyFileOperations (applyFileOperations t xs) (op # ys)
      = applyFileOperations (applyFileOperations t xs) ys"
    by (simp add: applyFileOperations_def split: prod.splits)
  then show ?thesis by (simp add: applyFileOperations_append)
qed

section \<open>The fence expression in closed form\<close>

lemma ends_with_suffix: "ends_with s e \<longleftrightarrow> suffix e s"
  by (simp add: ends_with_def suffix_to_prefix)

lemma bt_no_space: "\<not> is_space (CHR 0x60)"
  by (simp add: is_space_def)

text \<open>The tail of the fence: white space, three backquotes, the end.\<close>

lemma rmatch_tail:
  "rmatch [Star Space, Lit ''```'', End] s cap =
     (if \<exists>ws. s = ws @ ''```'' \<and> (\<forall>c \<in> set ws. is_space c) then Some cap else None)"
proof (induction s)
  case Nil
  then show ?case by simp
next
  case (Cons c cs)
  show ?case
  proof (cases "is_space c")
    case True
    then have nb: "c \<noteq> CHR 0x60" using bt_no_space by auto
    have e: "(\<exists>ws. c # cs = ws @ ''```'' \<and> (\<forall>x \<in> set ws. is_space x))
        \<longleftrightarrow> (\<exists>ws. cs = ws @ ''```'' \<and> (\<forall>x \<in> set ws. is_space x))"
    proof
      assume "\<exists>ws. c # cs = ws @ ''```'' \<and> (\<forall>x \<in> set ws. is_space x)"
      then obtain ws where w: "c # cs = ws @ ''```''" "\<forall>x \<in> set ws. is_space x" by blast
      with nb obtain ws' where "ws = c # ws'" by (cases ws) auto
      with w show "\<exists>ws. cs = ws @ ''```'' \<and> (\<forall>x \<in> set ws. is_space x)" by auto
    next
      assume "\<exists>ws. cs = ws @ ''```'' \<and> (\<forall>x \<in> set ws. is_space x)"
      then obtain ws where "cs = ws @ ''```''" "\<forall>x \<in> set ws. is_space x" by blast
      with True have "c # cs = (c # ws) @ ''```'' \<and> (\<forall>x \<in> set (c # ws). is_space x)" by simp
      then show "\<exists>ws. c # cs = ws @ ''```'' \<and> (\<forall>x \<in> set ws. is_space x)" by blast
    qed
    from True nb have "rmatch [Star Space, Lit ''```'', End] (c # cs) cap
        = rmatch [Star Space, Lit ''```'', End] cs cap"
      by (simp split: option.splits)
    with Cons.IH e show ?thesis by simp
  next
    case False
    have e: "(\<exists>ws. c # cs = ws @ ''```'' \<and> (\<forall>x \<in> set ws. is_space x)) \<longleftrightarrow> c # cs = ''```''"
    proof
      assume "\<exists>ws. c # cs = ws @ ''```'' \<and> (\<forall>x \<in> set ws. is_space x)"
      then obtain ws where w: "c # cs = ws @ ''```''" "\<forall>x \<in> set ws. is_space x" by blast
      with False have "ws = []" by (cases ws) auto
      with w show "c # cs = ''```''" by simp
    next
      assume "c # cs = ''```''"
      then have "c # cs = [] @ ''```'' \<and> (\<forall>x \<in> set []. is_space x)" by simp
      then show "\<exists>ws. c # cs = ws @ ''```'' \<and> (\<forall>x \<in> set ws. is_space x)" by blast
    qed
    have "rmatch [Star Space, Lit ''```'', End] (c # cs) cap
        = (if c # cs = ''```'' then Some cap else None)"
      using False by (auto simp: prefix_def)
    with e show ?thesis by simp
  qed
qed

lemma trim_end_all_space: "\<forall>x \<in> set s. is_space x \<Longrightarrow> trim_end s = []"
  by (simp add: trim_end_def)

lemma trim_end_Cons_general:
  "trim_end (c # s) = (if \<forall>x \<in> set (c # s). is_space x then [] else c # trim_end s)"
  by (auto simp: trim_end_def dropWhile_append)

lemma suffix_bt_Cons:
  "suffix ''```'' (c # cs) \<longleftrightarrow> c # cs = ''```'' \<or> suffix ''```'' cs"
  by (auto simp: suffix_Cons)

lemma suffix_bt_length: "suffix ''```'' s \<Longrightarrow> 3 \<le> length s"
  using suffix_length_le by fastforce

text \<open>The group and the tail: the group takes as little as lets the tail match.\<close>

lemma rmatch_group:
  "rmatch [LazyGroup Any, Star Space, Lit ''```'', End] s cap =
     (if suffix ''```'' s then Some (cap @ trim_end (take (length s - 3) s)) else None)"
proof (induction s arbitrary: cap)
  case Nil
  then show ?case by (simp add: rmatch_tail)
next
  case (Cons c cs)
  let ?closes = "\<exists>ws. c # cs = ws @ ''```'' \<and> (\<forall>x \<in> set ws. is_space x)"
  show ?case
  proof (cases ?closes)
    case True
    then obtain ws where w: "c # cs = ws @ ''```''" "\<forall>x \<in> set ws. is_space x" by blast
    then have "suffix ''```'' (c # cs)" by (metis suffixI)
    moreover from w have "take (length (c # cs) - 3) (c # cs) = ws" by simp
    moreover have "rmatch [Star Space, Lit ''```'', End] (c # cs) cap = Some cap"
      using True by (simp only: rmatch_tail if_True)
    then have "rmatch [LazyGroup Any, Star Space, Lit ''```'', End] (c # cs) cap = Some cap"
      by (subst rmatch.simps(6)) (simp only: option.case)
    ultimately show ?thesis using w(2) by (simp add: trim_end_all_space)
  next
    case False
    then have ne: "c # cs \<noteq> ''```''" by (metis append_Nil empty_iff list.set(1))
    have "rmatch [Star Space, Lit ''```'', End] (c # cs) cap = None"
      using False by (simp only: rmatch_tail if_False)
    then have r: "rmatch [LazyGroup Any, Star Space, Lit ''```'', End] (c # cs) cap
        = rmatch [LazyGroup Any, Star Space, Lit ''```'', End] cs (cap @ [c])"
      by (subst rmatch.simps(6)) (simp only: option.case list.case in_class.simps if_True)
    show ?thesis
    proof (cases "suffix ''```'' cs")
      case s: True
      then obtain p where p: "cs = p @ ''```''" by (auto simp: suffix_def)
      then have t: "take (length (c # cs) - 3) (c # cs) = c # p" "take (length cs - 3) cs = p"
        by simp_all
      from False p have "\<not> (\<forall>x \<in> set (c # p). is_space x)"
        by (metis append_Cons)
      then have "trim_end (c # p) = c # trim_end p" by (simp add: trim_end_Cons_general)
      with s r t Cons.IH [of "cap @ [c]"] show ?thesis
        by (simp add: suffix_bt_Cons)
    next
      case s: False
      with r ne Cons.IH [of "cap @ [c]"] show ?thesis
        by (simp add: suffix_bt_Cons)
    qed
  qed
qed

lemma suffix_bt_dropWhile: "suffix ''```'' s \<Longrightarrow> suffix ''```'' (dropWhile is_space s)"
proof -
  assume "suffix ''```'' s"
  then obtain p where p: "s = p @ ''```''" by (auto simp: suffix_def)
  have "dropWhile is_space (p @ ''```'') =
      (if \<forall>x \<in> set p. is_space x then ''```'' else dropWhile is_space p @ ''```'')"
    using bt_no_space by (simp add: dropWhile_append)
  with p show ?thesis by (auto simp: suffix_def)
qed

text \<open>White space before the group: giving some of it back to the group wins nothing.\<close>

lemma rmatch_space_group:
  "rmatch [Star Space, LazyGroup Any, Star Space, Lit ''```'', End] s cap =
     (let r3 = dropWhile is_space s
      in if suffix ''```'' r3 then Some (cap @ trim_end (take (length r3 - 3) r3)) else None)"
proof (induction s)
  case Nil
  have "rmatch [Star Space, LazyGroup Any, Star Space, Lit ''```'', End] [] cap
      = rmatch [LazyGroup Any, Star Space, Lit ''```'', End] [] cap"
    by (simp only: rmatch.simps(4))
  also have "\<dots> = None" by (simp only: rmatch_group) simp
  finally show ?case by simp
next
  case (Cons c cs)
  let ?all = "[Star Space, LazyGroup Any, Star Space, Lit ''```'', End]"
  let ?grp = "[LazyGroup Any, Star Space, Lit ''```'', End]"
  show ?case
  proof (cases "is_space c")
    case True
    have u: "rmatch ?all (c # cs) cap
        = (case rmatch ?all cs cap of
             Some g \<Rightarrow> Some g
           | None \<Rightarrow> rmatch ?grp (c # cs) cap)"
      using True by (simp only: rmatch.simps(5) in_class.simps if_True)
    have d: "dropWhile is_space (c # cs) = dropWhile is_space cs" using True by simp
    show ?thesis
    proof (cases "suffix ''```'' (dropWhile is_space cs)")
      case s: True
      with Cons.IH have "rmatch ?all cs cap
          = Some (cap @ trim_end (take (length (dropWhile is_space cs) - 3) (dropWhile is_space cs)))"
        by (simp add: Let_def del: rmatch.simps)
      with u s show ?thesis by (simp only: d Let_def option.case if_True)
    next
      case s: False
      with Cons.IH have n: "rmatch ?all cs cap = None" by (simp add: Let_def del: rmatch.simps)
      have "\<not> suffix ''```'' (c # cs)"
      proof
        assume "suffix ''```'' (c # cs)"
        then have "suffix ''```'' (dropWhile is_space (c # cs))" by (rule suffix_bt_dropWhile)
        with d s show False by simp
      qed
      then have "rmatch ?grp (c # cs) cap = None" by (simp only: rmatch_group if_False)
      with u n s show ?thesis by (simp only: d Let_def option.case if_False)
    qed
  next
    case False
    have "rmatch ?all (c # cs) cap = rmatch ?grp (c # cs) cap"
      using False by (simp only: rmatch.simps(5) in_class.simps if_False)
    moreover have "dropWhile is_space (c # cs) = c # cs" using False by simp
    ultimately show ?thesis by (simp only: rmatch_group Let_def)
  qed
qed

lemma suffix_last: "suffix y z \<Longrightarrow> y \<noteq> [] \<Longrightarrow> last y = last z"
  by (auto simp: suffix_def)

lemma suffix_bt_json: "suffix ''```'' (''json'' @ x) \<Longrightarrow> suffix ''```'' x"
proof -
  assume "suffix ''```'' (''json'' @ x)"
  with suffix_append [of "''```''" "''json''" x]
  have "suffix ''```'' x \<or> (\<exists>y. ''```'' = y @ x \<and> suffix y ''json'')" by blast
  then show ?thesis
  proof
    assume "suffix ''```'' x"
    then show ?thesis .
  next
    assume "\<exists>y. ''```'' = y @ x \<and> suffix y ''json''"
    then obtain y where y: "''```'' = y @ x" "suffix y ''json''" by blast
    show ?thesis
    proof (cases "y = []")
      case True
      with y(1) show ?thesis by simp
    next
      case False
      with y(2) have "last y = last ''json''" by (rule suffix_last)
      then have "last y = CHR ''n''" by simp
      moreover from False have "last y \<in> set y" by simp
      then have "last y \<in> set (y @ x)" by simp
      with y(1) have "last y \<in> set ''```''" by simp
      ultimately show ?thesis by simp
    qed
  qed
qed

text \<open>The whole expression.\<close>

lemma fence_match_closed: "fence_match s = fence_group s"
proof (cases "prefix ''```'' s")
  case False
  then show ?thesis by (simp add: fence_match_def fence_regex_def fence_group_def)
next
  case True
  let ?r1 = "drop 3 s"
  let ?rest = "[Star Space, LazyGroup Any, Star Space, Lit ''```'', End]"
  let ?F = "\<lambda>x. (let r3 = dropWhile is_space x
      in if suffix ''```'' r3 then Some (trim_end (take (length r3 - 3) r3)) else None)"
  have F: "rmatch ?rest x [] = ?F x" for x
    by (simp only: rmatch_space_group append_Nil)
  have m: "fence_match s = rmatch (Opt ''json'' # ?rest) ?r1 []"
    using True
    by (simp add: fence_match_def fence_regex_def numeral_3_eq_3 del: rmatch.simps(3,4,5,6,7))
  have g: "fence_group s = ?F (if prefix ''json'' ?r1 then drop 4 ?r1 else ?r1)"
    using True by (simp add: fence_group_def ends_with_suffix Let_def)
  show ?thesis
  proof (cases "prefix ''json'' ?r1")
    case j: False
    then have "rmatch (Opt ''json'' # ?rest) ?r1 [] = rmatch ?rest ?r1 []"
      by (simp only: rmatch.simps(3) if_False)
    with m g j show ?thesis by (simp only: F if_False)
  next
    case j: True
    then obtain x where x: "?r1 = ''json'' @ x" by (auto simp: prefix_def)
    then have d4: "drop 4 ?r1 = x" by simp
    have o: "rmatch (Opt ''json'' # ?rest) ?r1 [] =
        (case rmatch ?rest x [] of
           Some g \<Rightarrow> Some g
         | None \<Rightarrow> rmatch ?rest ?r1 [])"
      using j d4 by (simp only: rmatch.simps(3) if_True) simp
    have gx: "fence_group s = ?F x" using g j d4 by (simp only: if_True)
    show ?thesis
    proof (cases "suffix ''```'' (dropWhile is_space x)")
      case True
      then obtain v where "?F x = Some v" by (simp add: Let_def)
      with m o gx show ?thesis by (simp only: F option.case)
    next
      case False
      then have fx: "?F x = None" by (simp add: Let_def)
      have "\<not> suffix ''```'' (''json'' @ x)"
        using False suffix_bt_json suffix_bt_dropWhile by blast
      moreover have "dropWhile is_space (''json'' @ x) = ''json'' @ x"
        by (simp add: is_space_def)
      ultimately have "?F (''json'' @ x) = None" by (simp add: Let_def)
      with x have "?F ?r1 = None" by (simp only:)
      with m o gx fx show ?thesis by (simp only: F option.case)
    qed
  qed
qed

lemma jsonString_closed:
  "jsonString jsonPartRaw =
     (case fence_group (trim jsonPartRaw) of
        None \<Rightarrow> trim jsonPartRaw
      | Some g \<Rightarrow> if g \<noteq> [] then g else trim jsonPartRaw)"
  by (simp add: jsonString_def fence_match_closed)

section \<open>Searching a text\<close>

lemma find_first_Some_split:
  "find_first sub s = Some i \<Longrightarrow> \<exists>post. s = take i s @ sub @ post \<and> i \<le> length s"
proof (induction s arbitrary: i)
  case Nil
  then show ?case by (simp split: if_splits)
next
  case (Cons x xs)
  show ?case
  proof (cases "prefix sub (x # xs)")
    case True
    with Cons.prems have "i = 0" by simp
    with True show ?thesis by (auto simp: prefix_def)
  next
    case False
    with Cons.prems obtain j where j: "find_first sub xs = Some j" and i: "i = Suc j"
      by auto
    from Cons.IH [OF j] i show ?thesis by auto
  qed
qed

lemma find_first_None_iff: "find_first sub s = None \<longleftrightarrow> \<not> sublist sub s"
proof (induction s)
  case Nil
  then show ?case by simp
next
  case (Cons x xs)
  then show ?case by (auto simp: sublist_Cons_right)
qed

lemma find_first_first:
  "find_first sub s = Some i \<Longrightarrow> sub \<noteq> [] \<Longrightarrow> \<not> sublist sub (take i s @ butlast sub)"
proof (induction s arbitrary: i)
  case Nil
  then show ?case by (simp split: if_splits)
next
  case (Cons x xs)
  show ?case
  proof (cases "prefix sub (x # xs)")
    case True
    with Cons.prems have "i = 0" by simp
    moreover have "\<not> sublist sub (butlast sub)"
    proof
      assume "sublist sub (butlast sub)"
      then have "length sub \<le> length (butlast sub)" by (rule sublist_length_le)
      with Cons.prems(2) show False by (cases sub rule: rev_cases) simp_all
    qed
    ultimately show ?thesis by simp
  next
    case False
    with Cons.prems obtain j where j: "find_first sub xs = Some j" and i: "i = Suc j"
      by auto
    have n: "\<not> sublist sub (take j xs @ butlast sub)" using Cons.IH [OF j Cons.prems(2)] .
    have "\<not> prefix sub (x # take j xs @ butlast sub)"
    proof
      assume p: "prefix sub (x # take j xs @ butlast sub)"
      from find_first_Some_split [OF j] obtain post where
        xs: "xs = take j xs @ sub @ post" by blast
      from Cons.prems(2) have sb: "sub = butlast sub @ [last sub]" by simp
      have "prefix (x # take j xs @ butlast sub) (x # xs)"
      proof -
        have "x # xs = (x # take j xs @ butlast sub) @ (last sub # post)"
          using xs sb by (metis append_Cons append_Nil append_assoc)
        then show ?thesis by (metis prefixI)
      qed
      with p have "prefix sub (x # xs)" by (rule prefix_order.trans)
      with False show False by contradiction
    qed
    with n i show ?thesis by (simp add: sublist_Cons_right)
  qed
qed

lemma indexOf_found:
  "sublist sub s \<Longrightarrow> \<exists>i. find_first sub s = Some i \<and> indexOf s sub = int i"
  by (cases "find_first sub s") (auto simp: indexOf_def find_first_None_iff)

lemma indexOf_minus_one_iff: "indexOf s sub = - 1 \<longleftrightarrow> \<not> sublist sub s"
  by (cases "find_first sub s") (auto simp: indexOf_def find_first_None_iff [symmetric])

section \<open>Fences and the start of a JSON text\<close>

lemma lex_number_start:
  assumes "lex_number (c # cs) = Some x"
  shows "c = CHR ''-'' \<or> is_digit c"
proof (rule ccontr)
  assume n: "\<not> (c = CHR ''-'' \<or> is_digit c)"
  then have a: "\<not> prefix ''-'' (c # cs)" by auto
  from n have b: "\<not> prefix ''0'' (c # cs)" by (auto simp: is_digit_def)
  from n have d: "lex_digits (c # cs) = None" by (simp add: lex_digits_def)
  have "lex_number (c # cs) = None"
    unfolding lex_number_def by (simp only: a b d if_False Let_def prod.case option.case)
  with assms show False by simp
qed

text \<open>A text that parses begins, after white space, with a character that starts a value.\<close>

lemma parse_value_start:
  "parse_value s = Some x \<Longrightarrow> \<exists>c r. dropWhile is_json_ws s = c # r \<and> value_start c"
proof (induction s)
  case Nil
  then show ?case by simp
next
  case (Cons c cs)
  show ?case
  proof (cases "is_json_ws c")
    case True
    with Cons show ?thesis by simp
  next
    case False
    have "value_start c"
    proof (rule ccontr)
      assume n: "\<not> value_start c"
      then have "\<not> prefix ''true'' (c # cs)" "\<not> prefix ''false'' (c # cs)"
        "\<not> prefix ''null'' (c # cs)" "c \<noteq> CHR ''{''" "c \<noteq> CHR ''[''" "c \<noteq> CHR 0x22"
        "\<not> (c = CHR ''-'' \<or> is_digit c)"
        by (auto simp: value_start_def is_digit_def)
      with False Cons.prems lex_number_start [of c cs] show False
        by (auto split: option.splits)
    qed
    with False show ?thesis by simp
  qed
qed

lemma dropWhile_weaker:
  assumes "\<And>x. P x \<Longrightarrow> Q x" and "dropWhile P xs = y # ys" and "\<not> Q y"
  shows "dropWhile Q xs = y # ys"
  using assms(2)
proof (induction xs)
  case Nil
  then show ?case by simp
next
  case (Cons x xs)
  show ?case
  proof (cases "P x")
    case True
    with Cons assms(1) show ?thesis by simp
  next
    case False
    with Cons.prems have "x = y" "xs = ys" by simp_all
    with assms(3) show ?thesis by simp
  qed
qed

lemma trim_end_Cons:
  "\<not> is_space c \<Longrightarrow>
   trim_end (c # r) = c # (if \<forall>x \<in> set r. is_space x then [] else trim_end r)"
  by (simp add: trim_end_def dropWhile_append)

lemma trim_end_keeps_head: "\<not> is_space c \<Longrightarrow> \<exists>r'. trim_end (c # r) = c # r'"
  by (simp add: trim_end_Cons)

lemma trim_end_append_space:
  "\<forall>x \<in> set ws. is_space x \<Longrightarrow> trim_end (s @ ws) = trim_end s"
  by (simp add: trim_end_def dropWhile_append)

lemma trim_end_no_trailing_space:
  "s \<noteq> [] \<Longrightarrow> \<not> is_space (last s) \<Longrightarrow> trim_end s = s"
  by (cases s rule: rev_cases) (simp_all add: trim_end_def)

lemma value_start_not_space: "value_start c \<Longrightarrow> \<not> is_space c \<and> c \<noteq> CHR 0x60"
  by (auto simp: value_start_def is_space_def)

lemma json_ws_space: "is_json_ws c \<Longrightarrow> is_space c"
  by (auto simp: is_json_ws_def is_space_def)

lemma JSON_parse_start:
  assumes "JSON_parse j = Inr v"
  shows "\<exists>c r. dropWhile is_space j = c # r \<and> value_start c"
proof -
  from assms obtain x where "parse_value j = Some x"
    by (auto simp: JSON_parse_def split: option.splits)
  then obtain c r where d: "dropWhile is_json_ws j = c # r" and v: "value_start c"
    using parse_value_start by blast
  from dropWhile_weaker [of is_json_ws is_space j c r] d v json_ws_space value_start_not_space
  have "dropWhile is_space j = c # r" by blast
  with v show ?thesis by blast
qed

lemma jsonString_bare:
  assumes "dropWhile is_space j = c # r" and "\<not> is_space c" and "c \<noteq> CHR 0x60"
  shows "jsonString j = trim j \<and> trim j \<noteq> []"
proof -
  from trim_end_keeps_head [OF assms(2)] obtain r' where t: "trim j = c # r'"
    using assms(1) by (auto simp: trim_def)
  with assms(3) have "fence_group (trim j) = None"
    by (simp add: fence_group_def)
  with t show ?thesis by (simp add: jsonString_closed)
qed

lemma jsonString_fenced:
  assumes d: "dropWhile is_space j = c # r" and ns: "\<not> is_space c" and nj: "c \<noteq> CHR ''j''"
    and tag: "tag = ''json'' \<or> tag = []"
    and w1: "\<forall>x \<in> set ws1. is_space x" and w2: "\<forall>x \<in> set ws2. is_space x"
  shows "jsonString (fenced tag ws1 j ws2) = trim j"
proof -
  let ?F = "''```'' @ tag @ ws1 @ j @ ws2 @ ''```''"
  let ?X = "ws1 @ j @ ws2 @ ''```''"
  have sp: "\<not> is_space (CHR 0x60)" by (simp add: is_space_def)
  have tF: "trim ?F = ?F"
  proof -
    have "dropWhile is_space ?F = ?F" using sp by simp
    moreover have "trim_end ?F = ?F"
      using sp by (intro trim_end_no_trailing_space) simp_all
    ultimately show ?thesis by (simp add: trim_def)
  qed
  have r3: "dropWhile is_space ?X = (c # r) @ ws2 @ ''```''"
  proof -
    have "dropWhile is_space (j @ ws2 @ ''```'') = dropWhile is_space j @ ws2 @ ''```''"
      using d by (metis dropWhile_append1 dropWhile_eq_Nil_conv list.distinct(1))
    with d w1 show ?thesis by (simp add: dropWhile_append2)
  qed
  have np: "\<not> prefix ''json'' ?X"
  proof
    assume "prefix ''json'' ?X"
    then obtain y where x: "?X = CHR ''j'' # y" by (auto simp: prefix_def)
    have "\<not> is_space (CHR ''j'')" by (simp add: is_space_def)
    with x have "dropWhile is_space ?X = CHR ''j'' # y" by simp
    with r3 nj show False by simp
  qed
  have r2: "(if prefix ''json'' (drop 3 ?F) then drop 4 (drop 3 ?F) else drop 3 ?F) = ?X"
    using tag np by auto
  have g: "fence_group ?F = Some (trim_end ((c # r) @ ws2))"
  proof -
    have e: "ends_with ((c # r) @ ws2 @ ''```'') ''```''"
      by (simp add: ends_with_def)
    have l: "take (length ((c # r) @ ws2 @ ''```'') - 3) ((c # r) @ ws2 @ ''```'')
        = (c # r) @ ws2"
      by simp
    have p: "prefix ''```'' ?F" by simp
    show ?thesis
      unfolding fence_group_def Let_def r2 r3 using e l p by (simp only: if_True)
  qed
  have "trim_end ((c # r) @ ws2) = trim_end (c # r)"
    using w2 by (rule trim_end_append_space)
  also have "\<dots> = trim j" using d by (simp add: trim_def)
  finally have t: "trim_end ((c # r) @ ws2) = trim j" .
  from trim_end_keeps_head [OF ns, of r] d have "trim j \<noteq> []" by (auto simp: trim_def)
  with g t tF show ?thesis by (simp add: jsonString_closed fenced_def)
qed

lemma value_start_not_j: "value_start c \<Longrightarrow> c \<noteq> CHR ''j''"
  by (auto simp: value_start_def)


section \<open>The parser consumes what it reads\<close>

lemma lex_string_shorter: "lex_string s = Some (x, r) \<Longrightarrow> length r < length s"
proof (induction s arbitrary: x r rule: lex_string.induct)
  case 1
  then show ?case by simp
next
  case (2 c cs)
  show ?case
  proof (cases "c = CHR 0x22")
    case True
    with "2.prems" show ?thesis by simp
  next
    case q: False
    show ?thesis
    proof (cases "c = CHR 0x5C")
      case True
      show ?thesis
      proof (cases cs)
        case Nil
        with True q "2.prems" show ?thesis by simp
      next
        case (Cons e cs')
        show ?thesis
        proof (cases "e = CHR ''u''")
          case u: True
          with True q Cons "2.prems" obtain ch s' where
            "unicode_escape (take 4 cs') = Some ch" "lex_string (drop 4 cs') = Some (s', r)"
            by (auto split: option.splits)
          with "2.IH"(1) [OF q True Cons u] have "length r < length (drop 4 cs')" by blast
          with Cons show ?thesis by simp
        next
          case nu: False
          with True q Cons "2.prems" obtain ch s' where
            "simple_escape e = Some ch" "lex_string cs' = Some (s', r)"
            by (auto split: option.splits)
          with "2.IH"(2) [OF q True Cons nu] have "length r < length cs'" by blast
          with Cons show ?thesis by simp
        qed
      qed
    next
      case False
      with q "2.prems" obtain s' where "\<not> (of_char c :: nat) < 32" "lex_string cs = Some (s', r)"
        by (auto split: option.splits if_splits)
      with "2.IH"(3) [OF q False] have "length r < length cs" by blast
      then show ?thesis by simp
    qed
  qed
qed

lemma lex_digits_shorter: "lex_digits s = Some (d, r) \<Longrightarrow> length r < length s"
proof -
  assume "lex_digits s = Some (d, r)"
  then have d: "takeWhile is_digit s \<noteq> []" and r: "r = dropWhile is_digit s"
    by (auto simp: lex_digits_def split: if_splits)
  have "length (takeWhile is_digit s) + length (dropWhile is_digit s) = length s"
    by (metis length_append takeWhile_dropWhile_id)
  with d r show ?thesis by (cases "takeWhile is_digit s") auto
qed

lemma lex_number_shorter:
  assumes "lex_number s = Some (n, r)"
  shows "length r < length s"
proof -
  define s1 where "s1 = (if prefix ''-'' s then drop 1 s else s)"
  have l1: "length s1 \<le> length s" by (simp add: s1_def)
  from assms obtain ip s2 where
    ip: "(if prefix ''0'' s1 then Some (''0'', drop 1 s1) else lex_digits s1) = Some (ip, s2)"
    by (auto simp: lex_number_def s1_def Let_def split: option.splits if_splits prod.splits)
  have l2: "length s2 < length s1"
  proof (cases "prefix ''0'' s1")
    case True
    with ip have "s2 = drop 1 s1" by simp
    moreover from True have "s1 \<noteq> []" by auto
    ultimately show ?thesis by simp
  next
    case False
    with ip show ?thesis by (simp add: lex_digits_shorter)
  qed
  from assms ip obtain fp s3 where
    fp: "(if prefix ''.'' s2
          then map_option (\<lambda>(d, r). (CHR ''.'' # d, r)) (lex_digits (drop 1 s2))
          else Some ([], s2)) = Some (fp, s3)"
    by (auto simp: lex_number_def s1_def Let_def split: option.splits if_splits prod.splits)
  have l3: "length s3 \<le> length s2"
  proof (cases "prefix ''.'' s2")
    case True
    with fp obtain d where "lex_digits (drop 1 s2) = Some (d, s3)" by auto
    then have "length s3 < length (drop 1 s2)" by (rule lex_digits_shorter)
    then show ?thesis by simp
  next
    case False
    with fp show ?thesis by simp
  qed
  have l4: "length r \<le> length s3"
  proof (cases "prefix ''e'' s3 \<or> prefix ''E'' s3")
    case True
    define s4 where "s4 = drop 1 s3"
    define s5 where "s5 = (if prefix ''+'' s4 \<or> prefix ''-'' s4 then drop 1 s4 else s4)"
    from assms ip fp True obtain ed where "lex_digits s5 = Some (ed, r)"
      by (auto simp: lex_number_def s1_def s4_def s5_def Let_def
          split: option.splits if_splits prod.splits)
    then have "length r < length s5" by (rule lex_digits_shorter)
    moreover have "length s5 \<le> length s3" by (simp add: s5_def s4_def)
    ultimately show ?thesis by simp
  next
    case False
    with assms ip fp have "r = s3"
      by (auto simp: lex_number_def s1_def Let_def split: option.splits if_splits prod.splits)
    then show ?thesis by simp
  qed
  from l1 l2 l3 l4 show ?thesis by simp
qed

lemma skip_ws_le: "length (skip_ws s) \<le> length s"
  by (simp add: skip_ws_def length_dropWhile_le)

lemma skip_ws_Cons_less: "skip_ws r = d # r' \<Longrightarrow> length r' < length r"
  using skip_ws_le [of r] by simp

lemma parse_shorter:
  "(\<forall>v r. parse_value s = Some (v, r) \<longrightarrow> length r < length s)"
  "(\<forall>vs r. parse_elements s1 = Some (vs, r) \<longrightarrow> length r < length s1)"
  "(\<forall>ms r. parse_members s2 = Some (ms, r) \<longrightarrow> length r < length s2)"
proof (induction s and s1 and s2 rule: parse_value_parse_elements_parse_members.induct)
  case 1
  then show ?case by simp
next
  case (2 c cs)
  show ?case
  proof (intro allI impI)
    fix v r
    assume p: "parse_value (c # cs) = Some (v, r)"
    show "length r < length (c # cs)"
    proof (cases "is_json_ws c")
      case True
      with p "2.IH"(1) show ?thesis by auto
    next
      case ws: False
      show ?thesis
      proof (cases "c = CHR ''{''")
        case True
        show ?thesis
        proof (cases "skip_ws cs")
          case Nil
          with ws True p show ?thesis by simp
        next
          case (Cons d r0)
          show ?thesis
          proof (cases "d = CHR ''}''")
            case e: True
            with ws True Cons p have "r = r0" by simp
            with skip_ws_Cons_less [OF Cons] show ?thesis by simp
          next
            case e: False
            with ws True Cons p obtain ms where "parse_members cs = Some (ms, r)"
              by (auto split: option.splits)
            with "2.IH"(2) [OF ws True Cons e] have "length r < length cs" by blast
            then show ?thesis by simp
          qed
        qed
      next
        case ob: False
        show ?thesis
        proof (cases "c = CHR ''[''")
          case True
          show ?thesis
          proof (cases "skip_ws cs")
            case Nil
            with ws ob True p show ?thesis by simp
          next
            case (Cons d r0)
            show ?thesis
            proof (cases "d = CHR '']''")
              case e: True
              with ws ob True Cons p have "r = r0" by simp
              with skip_ws_Cons_less [OF Cons] show ?thesis by simp
            next
              case e: False
              with ws ob True Cons p obtain vs where "parse_elements cs = Some (vs, r)"
                by (auto split: option.splits)
              with "2.IH"(3) [OF ws ob True Cons e] have "length r < length cs" by blast
              then show ?thesis by simp
            qed
          qed
        next
          case ar: False
          show ?thesis
          proof (cases "c = CHR 0x22")
            case True
            with ws ob ar p obtain x where "lex_string cs = Some (x, r)"
              by (auto split: option.splits)
            then have "length r < length cs" by (rule lex_string_shorter)
            then show ?thesis by simp
          next
            case st: False
            consider (t) "prefix ''true'' (c # cs)" | (f) "prefix ''false'' (c # cs)"
              | (n) "prefix ''null'' (c # cs)"
              | (num) "\<not> prefix ''true'' (c # cs)" "\<not> prefix ''false'' (c # cs)"
                  "\<not> prefix ''null'' (c # cs)"
              by blast
            then show ?thesis
            proof cases
              case t
              with ws ob ar st p have "r = drop 4 (c # cs)" by simp
              then show ?thesis by simp
            next
              case f
              with ws ob ar st p have "r = drop 4 (c # cs) \<or> r = drop 5 (c # cs)"
                by (auto split: if_splits)
              then show ?thesis by auto
            next
              case n
              with ws ob ar st p have "r = drop 4 (c # cs) \<or> r = drop 5 (c # cs)"
                by (auto split: if_splits)
              then show ?thesis by auto
            next
              case num
              with ws ob ar st p obtain x where "lex_number (c # cs) = Some (x, r)"
                by (auto split: option.splits)
              then show ?thesis by (rule lex_number_shorter)
            qed
          qed
        qed
      qed
    qed
  qed
next
  case (3 s)
  show ?case
  proof (intro allI impI)
    fix vs r
    assume p: "parse_elements s = Some (vs, r)"
    then obtain v r0 where v: "parse_value s = Some (v, r0)" and l: "length r0 < length s"
      by (auto split: option.splits if_splits)
    from p v l obtain d r' where sk: "skip_ws r0 = d # r'"
      by (auto split: list.splits)
    show "length r < length s"
    proof (cases "d = CHR '']''")
      case True
      with p v l sk have "r = r'" by simp
      with skip_ws_Cons_less [OF sk] l show ?thesis by simp
    next
      case False
      with p v l sk have c: "d = CHR '',''" by (auto split: if_splits)
      with p v l sk False obtain vs' where "parse_elements r' = Some (vs', r)"
        by (auto split: option.splits)
      with "3.IH"(2) [OF v [THEN sym, THEN sym] refl l sk False c]
      have "length r < length r'" by blast
      with skip_ws_Cons_less [OF sk] l show ?thesis by simp
    qed
  qed
next
  case (4 s)
  show ?case
  proof (intro allI impI)
    fix ms r
    assume p: "parse_members s = Some (ms, r)"
    then obtain q s1 where sk: "skip_ws s = q # s1" by (auto split: list.splits)
    with p have q: "q = CHR 0x22" by (auto split: if_splits)
    from p sk q obtain k s2 where ls: "lex_string s1 = Some (k, s2)"
      by (auto split: option.splits)
    from p sk q ls obtain col s3 where sk2: "skip_ws s2 = col # s3"
      by (auto split: list.splits)
    from p sk q ls sk2 have g: "col = CHR '':'' \<and> length s3 < length s"
      by (auto split: if_splits)
    from p sk q ls sk2 g obtain v r0 where v: "parse_value s3 = Some (v, r0)"
      by (auto split: option.splits)
    from p sk q ls sk2 g v have l: "length r0 < length s3" by (auto split: if_splits)
    from p sk q ls sk2 g v l obtain d r' where sk3: "skip_ws r0 = d # r'"
      by (auto split: list.splits)
    show "length r < length s"
    proof (cases "d = CHR ''}''")
      case True
      with p sk q ls sk2 g v l sk3 have "r = r'" by simp
      with skip_ws_Cons_less [OF sk3] l g show ?thesis by simp
    next
      case False
      with p sk q ls sk2 g v l sk3 have c: "d = CHR '',''" by (auto split: if_splits)
      with p sk q ls sk2 g v l sk3 False obtain ms' where "parse_members r' = Some (ms', r)"
        by (auto split: option.splits)
      with "4.IH"(2) [OF sk q ls refl sk2 g v [THEN sym, THEN sym] refl l sk3 False c]
      have "length r < length r'" by blast
      with skip_ws_Cons_less [OF sk3] l g show ?thesis by simp
    qed
  qed
qed

text \<open>So the length tests of the parser never fail: without them it reads the same.\<close>

lemma parse_elements_unguarded:
  "parse_elements s =
     (case parse_value s of
        None \<Rightarrow> None
      | Some (v, r) \<Rightarrow>
          (case skip_ws r of
             [] \<Rightarrow> None
           | d # r' \<Rightarrow>
               if d = CHR '']'' then Some ([v], r')
               else if d = CHR '','' then
                 (case parse_elements r' of
                    None \<Rightarrow> None
                  | Some (vs, r'') \<Rightarrow> Some (v # vs, r''))
               else None))"
  using parse_shorter(1) [of s] by (auto split: option.splits)

lemma parse_members_unguarded:
  "parse_members s =
     (case skip_ws s of
        [] \<Rightarrow> None
      | q # s1 \<Rightarrow>
          if q = CHR 0x22 then
            (case lex_string s1 of
               None \<Rightarrow> None
             | Some (k, s2) \<Rightarrow>
                 (case skip_ws s2 of
                    [] \<Rightarrow> None
                  | col # s3 \<Rightarrow>
                      if col = CHR '':'' then
                        (case parse_value s3 of
                           None \<Rightarrow> None
                         | Some (v, r) \<Rightarrow>
                             (case skip_ws r of
                                [] \<Rightarrow> None
                              | d # r' \<Rightarrow>
                                  if d = CHR ''}'' then Some ([(k, v)], r')
                                  else if d = CHR '','' then
                                    (case parse_members r' of
                                       None \<Rightarrow> None
                                     | Some (ms, r'') \<Rightarrow> Some ((k, v) # ms, r''))
                                  else None))
                      else None))
          else None)"
proof -
  have g: "length s3 < length s"
    if "skip_ws s = q # s1" "lex_string s1 = Some (k, s2)" "skip_ws s2 = col # s3"
    for q s1 k s2 col s3
    using skip_ws_Cons_less [OF that(1)] lex_string_shorter [OF that(2)]
      skip_ws_Cons_less [OF that(3)]
    by simp
  show ?thesis
    using parse_shorter(1) g
    by (subst parse_members.simps) (auto split: option.splits list.splits)
qed

section \<open>Updates of workspaces and tasks\<close>

lemma find_map_task:
  assumes "\<And>t. task_id (f t) = task_id t"
  shows "find (\<lambda>t. task_id t = i) (map_task i f ts) = map_option f (find (\<lambda>t. task_id t = i) ts)"
  using assms by (induction ts) (simp_all add: map_task_def)

lemma find_map_workspace:
  assumes "\<And>w. ws_id (f w) = ws_id w"
  shows "find (\<lambda>w. ws_id w = a) (map_workspace a f wss) = map_option f (find (\<lambda>w. ws_id w = a) wss)"
  using assms by (induction wss) (simp_all add: map_workspace_def)

lemma map_workspace_comp:
  assumes "\<And>w. ws_id (g w) = ws_id w"
  shows "map_workspace a f (map_workspace a g wss) = map_workspace a (f \<circ> g) wss"
  using assms by (induction wss) (simp_all add: map_workspace_def)

lemma map_task_comp:
  assumes "\<And>t. task_id (g t) = task_id t"
  shows "map_task i f (map_task i g ts) = map_task i (f \<circ> g) ts"
  using assms by (induction ts) (simp_all add: map_task_def)

lemma ws_id_updates [simp]:
  "ws_id (show_conversational i c ws) = ws_id ws"
  "ws_id (complete_update i b d ws) = ws_id ws"
  "ws_id (fail_update i m ws) = ws_id ws"
  "ws_id (reject_update i ws) = ws_id ws"
  "ws_id (approve_update i ws) = ws_id ws"
  by (simp_all add: show_conversational_def complete_update_def fail_update_def
      reject_update_def approve_update_def Let_def split: option.splits)

lemma fileSystem_updates [simp]:
  "fileSystem (show_conversational i c ws) = fileSystem ws"
  "fileSystem (fail_update i m ws) = fileSystem ws"
  "fileSystem (reject_update i ws) = fileSystem ws"
  by (simp_all add: show_conversational_def fail_update_def reject_update_def)

lemma show_conversational_twice [simp]:
  "show_conversational i c2 (show_conversational i c1 ws) = show_conversational i c2 ws"
  by (simp add: show_conversational_def map_task_comp comp_def)

lemma framer_full: "fullResponseText (foldl framer_step f cs) = fullResponseText f @ concat cs"
  by (induction cs arbitrary: f) (simp_all add: framer_step_def Let_def)

lemma conversational_Nil [simp]: "conversational [] = []"
  by (simp add: conversational_def indexOf_def blueprintSeparator_def opsSeparator_def substring_to_def)

lemma framer_conv:
  "conversationalPart f = conversational (fullResponseText f) \<Longrightarrow>
   conversationalPart (foldl framer_step f cs) = conversational (fullResponseText f @ concat cs)"
  by (induction cs arbitrary: f) (simp_all add: framer_step_def Let_def)

lemma stream_loop_fst:
  "fst (foldl (stream_step a i) (f, wss) cs) = foldl framer_step f cs"
  by (induction cs arbitrary: f wss) (simp_all add: stream_step_def Let_def)

lemma stream_loop_snd:
  "snd (foldl (stream_step a i) (f, wss) cs) =
     (if cs = [] then wss
      else map_workspace a (show_conversational i (conversational (fullResponseText f @ concat cs))) wss)"
proof (induction cs arbitrary: f wss)
  case Nil
  then show ?case by simp
next
  case (Cons c cs)
  let ?f = "framer_step f c"
  let ?w = "map_workspace a (show_conversational i (conversationalPart ?f)) wss"
  have "foldl (stream_step a i) (f, wss) (c # cs) = foldl (stream_step a i) (?f, ?w) cs"
    by (simp add: stream_step_def [abs_def] Let_def)
  then have "snd (foldl (stream_step a i) (f, wss) (c # cs)) =
     (if cs = [] then ?w
      else map_workspace a
             (show_conversational i (conversational (fullResponseText ?f @ concat cs))) ?w)"
    by (simp only: Cons.IH)
  then show ?case
    by (simp add: map_workspace_comp comp_def framer_step_def Let_def)
qed

lemma activeWorkspace_map:
  assumes "activeWorkspaceId app = Some a" and "\<And>w. ws_id (f w) = ws_id w"
  shows "activeWorkspace (app\<lparr>workspaces := map_workspace a f (workspaces app)\<rparr>)
           = map_option f (activeWorkspace app)"
  using assms by (simp add: activeWorkspace_def find_map_workspace)

lemma activeWorkspace_id: "activeWorkspace app = Some ws \<Longrightarrow> \<exists>a. activeWorkspaceId app = Some a"
  by (cases "activeWorkspaceId app") (simp_all add: activeWorkspace_def)

lemma runAIGeneration_active:
  assumes act: "activeWorkspace app = Some ws" and a: "activeWorkspaceId app = Some a"
  shows "runAIGeneration parse stream taskId isAutoPilot app =
     (case failure stream of
        Some m \<Rightarrow>
          Some (app\<lparr>workspaces := map_workspace a
                  (\<lambda>w. fail_update taskId m (after_stream taskId (chunks stream) w))
                  (workspaces app)\<rparr>)
      | None \<Rightarrow>
          (case decode_response parse isAutoPilot (concat (chunks stream)) of
             Decoded d \<Rightarrow>
               Some (app\<lparr>workspaces := map_workspace a
                       (\<lambda>w. complete_update taskId isAutoPilot d
                              (after_stream taskId (chunks stream) w))
                       (workspaces app)\<rparr>)
           | Thrown m \<Rightarrow>
               Some (app\<lparr>workspaces := map_workspace a
                       (\<lambda>w. fail_update taskId m (after_stream taskId (chunks stream) w))
                       (workspaces app)\<rparr>)
           | Ill_typed \<Rightarrow> None))"
proof -
  from act a have f: "find (\<lambda>w. ws_id w = a) (workspaces app) = Some ws"
    by (simp add: activeWorkspace_def)
  obtain fr wss where
    l: "foldl (stream_step a taskId) (framer_init, workspaces app) (chunks stream) = (fr, wss)"
    by (cases "foldl (stream_step a taskId) (framer_init, workspaces app) (chunks stream)")
  from l have fr: "fullResponseText fr = concat (chunks stream)"
    using stream_loop_fst [of a taskId framer_init "workspaces app" "chunks stream"]
    by (simp add: framer_full framer_init_def)
  from l have wss: "wss = (if chunks stream = [] then workspaces app
      else map_workspace a
             (show_conversational taskId (conversational (concat (chunks stream))))
             (workspaces app))"
    using stream_loop_snd [of a taskId framer_init "workspaces app" "chunks stream"]
    by (simp add: framer_init_def)
  have i: "map_workspace a (\<lambda>w. w) (workspaces app) = workspaces app"
    by (simp add: map_workspace_def)
  have m: "map_workspace a g wss
      = map_workspace a (\<lambda>w. g (after_stream taskId (chunks stream) w)) (workspaces app)" for g
    by (simp add: wss map_workspace_comp comp_def after_stream_def [abs_def])
  show ?thesis
    using a f l fr
    by (simp add: runAIGeneration_def m split: option.splits decode_outcome.splits)
qed

lemma applyFileOperations_Nil [simp]: "applyFileOperations t [] = t"
  by (simp add: applyFileOperations_def)

lemma ws_id_after_stream [simp]: "ws_id (after_stream i cs ws) = ws_id ws"
  by (simp add: after_stream_def)

lemma fileSystem_after_stream [simp]: "fileSystem (after_stream i cs ws) = fileSystem ws"
  by (simp add: after_stream_def)

lemma find_after_stream:
  "find (\<lambda>t. task_id t = i) (tasks (after_stream i cs ws))
     = map_option (\<lambda>t. if cs = [] then t
         else t\<lparr>assistantResponse := Some \<lparr>resp_content = conversational (concat cs),
                                            operations = None, blueprint = None\<rparr>\<rparr>)
        (find (\<lambda>t. task_id t = i) (tasks ws))"
  by (simp add: after_stream_def show_conversational_def find_map_task option.map_ident)

lemma decode_response_kind:
  "decode_response parse b text =
     (case winning_kind text of
        Blueprint \<Rightarrow>
          (case parse (jsonString (payload_tail text)) of
             Inl m \<Rightarrow> Thrown (''Failed to parse blueprint from AI. '' @ m)
           | Inr v \<Rightarrow> Decoded \<lparr>finalConversationalPart =
                          trim (substring_to text (indexOf text blueprintSeparator)),
                        fileOps = [], parsed_blueprint = Some v,
                        final_status = pending_blueprint_approval\<rparr>)
      | Operations \<Rightarrow>
          (case parse (jsonString (payload_tail text)) of
             Inl m \<Rightarrow> Thrown (''Failed to parse file operations from AI. '' @ m)
           | Inr v \<Rightarrow>
               (case operations_of v of
                  Inl m \<Rightarrow> Thrown (''Failed to parse file operations from AI. '' @ m)
                | Inr None \<Rightarrow> Ill_typed
                | Inr (Some ops) \<Rightarrow>
                    Decoded \<lparr>finalConversationalPart =
                               trim (substring_to text (indexOf text opsSeparator)),
                             fileOps = ops, parsed_blueprint = None,
                             final_status = (if b then completed else pending_confirmation)\<rparr>))
      | NoPayload \<Rightarrow>
          Decoded \<lparr>finalConversationalPart = text, fileOps = [], parsed_blueprint = None,
                   final_status = completed\<rparr>)"
  by (simp add: decode_response_def winning_kind_def payload_tail_def Let_def)

text \<open>
  The two ways a round ends: with the update of lines 270 to 278 when the response was
  decoded, with the update of line 283 when decoding threw.
\<close>

lemma runAIGeneration_decoded:
  assumes "activeWorkspace app = Some ws" "failure stream = None"
    and "decode_response parse b (concat (chunks stream)) = Decoded d"
  shows "\<exists>app'. runAIGeneration parse stream i b app = Some app'
           \<and> activeWorkspace app'
               = Some (complete_update i b d (after_stream i (chunks stream) ws))"
proof -
  from assms(1) obtain a where a: "activeWorkspaceId app = Some a"
    using activeWorkspace_id by blast
  let ?f = "\<lambda>w. complete_update i b d (after_stream i (chunks stream) w)"
  have "runAIGeneration parse stream i b app
      = Some (app\<lparr>workspaces := map_workspace a ?f (workspaces app)\<rparr>)"
    using assms a by (simp add: runAIGeneration_active)
  moreover have "activeWorkspace (app\<lparr>workspaces := map_workspace a ?f (workspaces app)\<rparr>)
      = Some (?f ws)"
    using a assms(1) activeWorkspace_map [of app a ?f] by simp
  ultimately show ?thesis by simp
qed

lemma runAIGeneration_thrown:
  assumes "activeWorkspace app = Some ws" "failure stream = None"
    and "decode_response parse b (concat (chunks stream)) = Thrown m"
  shows "\<exists>app'. runAIGeneration parse stream i b app = Some app'
           \<and> activeWorkspace app' = Some (fail_update i m (after_stream i (chunks stream) ws))"
proof -
  from assms(1) obtain a where a: "activeWorkspaceId app = Some a"
    using activeWorkspace_id by blast
  let ?f = "\<lambda>w. fail_update i m (after_stream i (chunks stream) w)"
  have "runAIGeneration parse stream i b app
      = Some (app\<lparr>workspaces := map_workspace a ?f (workspaces app)\<rparr>)"
    using assms a by (simp add: runAIGeneration_active)
  moreover have "activeWorkspace (app\<lparr>workspaces := map_workspace a ?f (workspaces app)\<rparr>)
      = Some (?f ws)"
    using a assms(1) activeWorkspace_map [of app a ?f] by simp
  ultimately show ?thesis by simp
qed

lemma find_complete_update:
  "find (\<lambda>t. task_id t = i) (tasks (complete_update i b d ws))
     = map_option (\<lambda>task. task\<lparr>status := final_status d,
                 assistantResponse :=
                   Some \<lparr>resp_content = finalConversationalPart d,
                         operations = Some (fileOps d),
                         blueprint = (case parsed_blueprint d of
                                        None \<Rightarrow> None
                                      | Some b \<Rightarrow> if truthy b then Some b else None)\<rparr>\<rparr>)
        (find (\<lambda>t. task_id t = i) (tasks ws))"
  by (simp add: complete_update_def Let_def find_map_task)

lemma find_fail_update:
  "find (\<lambda>t. task_id t = i) (tasks (fail_update i m ws))
     = map_option (\<lambda>task. task\<lparr>status := error, task_error := Some m\<rparr>)
        (find (\<lambda>t. task_id t = i) (tasks ws))"
  by (simp add: fail_update_def find_map_task)

lemma fileSystem_complete:
  "fileSystem (complete_update i b d ws) =
     (if b \<and> fileOps d \<noteq> [] then applyFileOperations (fileSystem ws) (fileOps d)
      else fileSystem ws)"
  by (simp add: complete_update_def Let_def)
lemma framer_run_conv: "conversationalPart (framer_run cs) = conversational (concat cs)"
  using framer_conv [of framer_init cs] by (simp add: framer_run_def framer_init_def)

lemma framer_run_full: "fullResponseText (framer_run cs) = concat cs"
  by (simp add: framer_run_def framer_full framer_init_def)

lemma hello_prefixes:
  assumes "prefix (''hello '' @ opsSeparator) a" and "prefix a ''hello ---JSON_OPERATIONS--- {...}''"
  shows "conversational a = ''hello ''"
proof -
  from assms(1) obtain r where a: "a = ''hello ---JSON_OPERATIONS---'' @ r"
    by (auto simp: prefix_def opsSeparator_def)
  with assms(2) have "prefix r '' {...}''" by simp
  then have "r \<in> set (prefixes '' {...}'')" by (simp only: in_set_prefixes)
  then have "r \<in> {[], '' '', '' {'', '' {.'', '' {..'', '' {...'', '' {...}''}"
    by simp
  with a show ?thesis
    by (auto simp: conversational_def indexOf_def blueprintSeparator_def opsSeparator_def
        substring_to_def)
qed


section \<open>Unfolding the definitions at a concrete input\<close>

lemmas text_eval = indexOf_def blueprintSeparator_def opsSeparator_def substring_to_def
  substring_from_def trim_def trim_end_def is_space_def fence_group_def ends_with_def
  jsonString_closed conversational_def winning_kind_def payload_tail_def fenced_def

lemmas json_eval = JSON_parse_def skip_ws_def is_json_ws_def simple_escape_def
  operations_of_def operations_property_def as_FileOperations_def as_FileOperation_def
  as_FileOperationType_def optional_string_def

lemmas tree_eval = applyFileOperations_def apply_operation_def traversePath_def path_parts_def
  is_folder_def

lemmas task_eval = runAIGeneration_def handleApproveBlueprint_def approve_blueprint_begin_def
  handleAutoPilotTick_def autopilot_tick_begin_def handleCreateTask_def add_task_def
  activeWorkspace_def map_workspace_def map_task_def stream_step_def framer_step_def
  framer_init_def show_conversational_def complete_update_def fail_update_def
  decode_response_def autopilot_running_def status_of_def example_task_def
  example_workspace_def example_app_def

section \<open>The Operation Applier\<close>

text \<open>
  C1 (per-operation failure isolation; a batch with one invalid operation gives the tree
  of the valid ones). The code does not do this for a rename whose destination cannot be
  resolved: the source is deleted before the destination is looked up, so the operation
  is logged as failed and the source is lost. In the tree with the files \<open>a\<close> and \<open>b\<close>,
  the batch "create c, rename a to b/c, create d" logs the rename as failed and ends
  without \<open>a\<close>, while the two valid operations alone keep \<open>a\<close>.
\<close>

theorem rename_invalid_destination_not_isolated:
  "run_operations (FolderNode [(''a'', FileNode ''x''), (''b'', FileNode ''y'')])
     [\<lparr>operation = CREATE_FILE, path = ''c'', op_content = Some ''z'', newPath = None\<rparr>,
      \<lparr>operation = RENAME_FILE, path = ''a'', op_content = None, newPath = Some ''b/c''\<rparr>,
      \<lparr>operation = CREATE_FILE, path = ''d'', op_content = None, newPath = None\<rparr>]
   = (FolderNode [(''b'', FileNode ''y''), (''c'', FileNode ''z''), (''d'', FileNode [])],
      [(\<lparr>operation = RENAME_FILE, path = ''a'', op_content = None, newPath = Some ''b/c''\<rparr>,
        ''Invalid destination path for RENAME: b/c'')])
   \<and> applyFileOperations (FolderNode [(''a'', FileNode ''x''), (''b'', FileNode ''y'')])
     [\<lparr>operation = CREATE_FILE, path = ''c'', op_content = Some ''z'', newPath = None\<rparr>,
      \<lparr>operation = CREATE_FILE, path = ''d'', op_content = None, newPath = None\<rparr>]
   = FolderNode [(''a'', FileNode ''x''), (''b'', FileNode ''y''), (''c'', FileNode ''z''),
       (''d'', FileNode [])]"
  by (simp add: applyFileOperations_def apply_operation_def traversePath_def path_parts_def
      is_folder_def)

text \<open>
  C4 (create-folder), as the claim states it, fails where a file occupies the final name:
  the code treats that like an existing folder, writes nothing and throws nothing, so no
  failure is recorded.
\<close>

theorem create_folder_over_file_counterexample:
  "findNodeByPath ''a'' (FolderNode [(''a'', FileNode ''x'')]) = Some (FileNode ''x'')
   \<and> run_operations (FolderNode [(''a'', FileNode ''x'')])
       [\<lparr>operation = CREATE_FOLDER, path = ''a'', op_content = None, newPath = None\<rparr>]
     = (FolderNode [(''a'', FileNode ''x'')], [])"
  by (simp add: findNodeByPath_def apply_operation_def traversePath_def path_parts_def
      is_folder_def)

text \<open>
  C4 as amended: a CREATE_FOLDER operation on a path with at least one component is a
  no-op, and records no failure, when a folder exists at that path and also when a file
  does; it fails, leaving the tree as it was, when the path has no component or one of
  its intermediate components is a file.
\<close>

theorem create_folder_amended:
  assumes "operation op = CREATE_FOLDER"
  shows "(path_parts (path op) \<noteq> [] \<and> (\<exists>ch. findNodeByPath (path op) t = Some (FolderNode ch))
            \<longrightarrow> run_operations t [op] = (t, []))
       \<and> (path_parts (path op) \<noteq> [] \<and> (\<exists>c. findNodeByPath (path op) t = Some (FileNode c))
            \<longrightarrow> run_operations t [op] = (t, []))
       \<and> (path_parts (path op) = [] \<or>
            (\<exists>q c. prefix q (butlast (path_parts (path op))) \<and> node_at q t = Some (FileNode c))
            \<longrightarrow> run_operations t [op] = (t, [(op, ''Invalid path for CREATE_FOLDER: '' @ path op)]))"
proof -
  have ex: "run_operations t [op] = (t, [])"
    if ne: "path_parts (path op) \<noteq> []" and n: "node_at (path_parts (path op)) t = Some n" for n
  proof -
    from ne have "butlast (path_parts (path op)) @ [last (path_parts (path op))]
        = path_parts (path op)"
      by simp
    with assms n last_path_parts [OF ne] show ?thesis
      by (simp add: apply_operation_def traversePath_existing [OF ne n])
  qed
  have inv: "run_operations t [op] = (t, [(op, ''Invalid path for CREATE_FOLDER: '' @ path op)])"
    if "path_parts (path op) = [] \<or>
        (\<exists>q c. prefix q (butlast (path_parts (path op))) \<and> node_at q t = Some (FileNode c))"
    using traversePath_conflict [OF that, of True] assms
    by (auto simp: apply_operation_def split: prod.splits)
  from ex inv show ?thesis
    by (auto simp: findNodeByPath_def)
qed

text \<open>C4 as amended, at an existing folder, at an existing file and under a file.\<close>

theorem create_folder_amended_witness:
  "run_operations (FolderNode [(''a'', FileNode ''x''), (''src'', FolderNode [])])
       [\<lparr>operation = CREATE_FOLDER, path = ''src'', op_content = None, newPath = None\<rparr>]
     = (FolderNode [(''a'', FileNode ''x''), (''src'', FolderNode [])], [])
   \<and> run_operations (FolderNode [(''a'', FileNode ''x''), (''src'', FolderNode [])])
       [\<lparr>operation = CREATE_FOLDER, path = ''a'', op_content = None, newPath = None\<rparr>]
     = (FolderNode [(''a'', FileNode ''x''), (''src'', FolderNode [])], [])
   \<and> run_operations (FolderNode [(''a'', FileNode ''x''), (''src'', FolderNode [])])
       [\<lparr>operation = CREATE_FOLDER, path = ''a/z'', op_content = None, newPath = None\<rparr>]
     = (FolderNode [(''a'', FileNode ''x''), (''src'', FolderNode [])],
        [(\<lparr>operation = CREATE_FOLDER, path = ''a/z'', op_content = None, newPath = None\<rparr>,
          ''Invalid path for CREATE_FOLDER: a/z'')])"
proof -
  let ?t = "FolderNode [(''a'', FileNode ''x''), (''src'', FolderNode [])]"
  let ?mk = "\<lambda>p. \<lparr>operation = CREATE_FOLDER, path = p, op_content = None, newPath = None\<rparr>"
  have h1: "path_parts ''src'' \<noteq> [] \<and> (\<exists>ch. findNodeByPath ''src'' ?t = Some (FolderNode ch))"
    by (simp add: findNodeByPath_def path_parts_def)
  have h2: "path_parts ''a'' \<noteq> [] \<and> (\<exists>c. findNodeByPath ''a'' ?t = Some (FileNode c))"
    by (simp add: findNodeByPath_def path_parts_def)
  have "prefix [''a''] (butlast (path_parts ''a/z'')) \<and> node_at [''a''] ?t = Some (FileNode ''x'')"
    by (simp add: path_parts_def)
  then have h3: "path_parts ''a/z'' = [] \<or>
      (\<exists>q c. prefix q (butlast (path_parts ''a/z'')) \<and> node_at q ?t = Some (FileNode c))"
    by blast
  have c1: "run_operations ?t [?mk ''src''] = (?t, [])"
    using create_folder_amended [of "?mk ''src''" ?t] h1 by (simp del: run_operations.simps)
  have c2: "run_operations ?t [?mk ''a''] = (?t, [])"
    using create_folder_amended [of "?mk ''a''" ?t] h2 by (simp del: run_operations.simps)
  have c3: "run_operations ?t [?mk ''a/z'']
      = (?t, [(?mk ''a/z'', ''Invalid path for CREATE_FOLDER: a/z'')])"
    using create_folder_amended [of "?mk ''a/z''" ?t] h3 by (auto simp del: run_operations.simps)
  from c1 c2 c3 show ?thesis by blast
qed

section \<open>Approval and rejection of a pending batch\<close>

text \<open>
  C3: for a task in \<open>pending_confirmation\<close> that holds a batch, rejecting sets the task to
  \<open>completed\<close> and leaves the tree of the workspace as it was, and approving sets it to
  \<open>completed\<close> and makes the tree the result of \<open>applyFileOperations\<close> on that batch.
\<close>

theorem approve_reject_pending_confirmation:
  assumes "activeWorkspace app = Some ws"
    and "find (\<lambda>t. task_id t = taskId) (tasks ws) = Some task"
    and "status task = pending_confirmation"
    and "assistantResponse task = Some r" and "operations r = Some ops"
  shows "(\<exists>ws'. activeWorkspace (handleRejectTask taskId app) = Some ws'
            \<and> status_of taskId ws' = Some completed \<and> fileSystem ws' = fileSystem ws)
       \<and> (\<exists>ws'. activeWorkspace (handleApproveTask taskId app) = Some ws'
            \<and> status_of taskId ws' = Some completed
            \<and> fileSystem ws' = applyFileOperations (fileSystem ws) ops)"
proof -
  from assms(1) obtain a where a: "activeWorkspaceId app = Some a"
    using activeWorkspace_id by blast
  have rej: "activeWorkspace (handleRejectTask taskId app) = Some (reject_update taskId ws)"
    using a assms(1) by (simp add: handleRejectTask_def activeWorkspace_map)
  have app: "activeWorkspace (handleApproveTask taskId app) = Some (approve_update taskId ws)"
    using a assms(1) by (simp add: handleApproveTask_def activeWorkspace_map)
  have au: "approve_update taskId ws =
      ws\<lparr>fileSystem := applyFileOperations (fileSystem ws) ops,
         tasks := map_task taskId (\<lambda>t. t\<lparr>status := completed\<rparr>) (tasks ws)\<rparr>"
    using assms(2-5) by (simp add: approve_update_def)
  have s1: "status_of taskId (reject_update taskId ws) = Some completed"
    using assms(2) by (simp add: reject_update_def status_of_def find_map_task)
  have s2: "status_of taskId (approve_update taskId ws) = Some completed"
    using assms(2) by (simp add: au status_of_def find_map_task)
  from rej app s1 s2 show ?thesis by (simp add: au)
qed


text \<open>C3 at a pending task that creates the file \<open>src/x.tsx\<close>.\<close>

theorem approve_reject_pending_confirmation_witness:
  "(\<exists>ws'. activeWorkspace (handleRejectTask ''t1''
        \<lparr>workspaces =
           [\<lparr>ws_id = ''w1'', ws_name = ''P'', fileSystem = FolderNode [(''src'', FolderNode [])],
             tasks = [\<lparr>task_id = ''t1'', userPrompt = ''add'', status = pending_confirmation,
                       assistantResponse = Some \<lparr>resp_content = ''ok'',
                         operations = Some [\<lparr>operation = CREATE_FILE, path = ''src/x.tsx'',
                                              op_content = Some ''hi'', newPath = None\<rparr>],
                         blueprint = None\<rparr>,
                       task_error = None, timestamp = 0, task_type = user\<rparr>],
             createdAt = ''d''\<rparr>],
          activeWorkspaceId = Some ''w1'', isAutoPilotOn = False\<rparr>) = Some ws'
      \<and> status_of ''t1'' ws' = Some completed
      \<and> fileSystem ws' = FolderNode [(''src'', FolderNode [])])
   \<and> (\<exists>ws'. activeWorkspace (handleApproveTask ''t1''
        \<lparr>workspaces =
           [\<lparr>ws_id = ''w1'', ws_name = ''P'', fileSystem = FolderNode [(''src'', FolderNode [])],
             tasks = [\<lparr>task_id = ''t1'', userPrompt = ''add'', status = pending_confirmation,
                       assistantResponse = Some \<lparr>resp_content = ''ok'',
                         operations = Some [\<lparr>operation = CREATE_FILE, path = ''src/x.tsx'',
                                              op_content = Some ''hi'', newPath = None\<rparr>],
                         blueprint = None\<rparr>,
                       task_error = None, timestamp = 0, task_type = user\<rparr>],
             createdAt = ''d''\<rparr>],
          activeWorkspaceId = Some ''w1'', isAutoPilotOn = False\<rparr>) = Some ws'
      \<and> status_of ''t1'' ws' = Some completed
      \<and> fileSystem ws' = FolderNode [(''src'', FolderNode [(''x.tsx'', FileNode ''hi'')])])"
proof -
  let ?op = "\<lparr>operation = CREATE_FILE, path = ''src/x.tsx'', op_content = Some ''hi'',
              newPath = None\<rparr>"
  let ?r = "\<lparr>resp_content = ''ok'', operations = Some [?op], blueprint = None\<rparr>"
  let ?task = "\<lparr>task_id = ''t1'', userPrompt = ''add'', status = pending_confirmation,
                assistantResponse = Some ?r, task_error = None, timestamp = 0,
                task_type = user\<rparr>"
  let ?fs = "FolderNode [(''src'', FolderNode [])]"
  let ?ws = "\<lparr>ws_id = ''w1'', ws_name = ''P'', fileSystem = ?fs, tasks = [?task],
              createdAt = ''d''\<rparr>"
  let ?app = "\<lparr>workspaces = [?ws], activeWorkspaceId = Some ''w1'', isAutoPilotOn = False\<rparr>"
  have h1: "activeWorkspace ?app = Some ?ws" by (simp add: activeWorkspace_def)
  have h2: "find (\<lambda>t. task_id t = ''t1'') (tasks ?ws) = Some ?task" by simp
  have h3: "status ?task = pending_confirmation" by simp
  have h4: "assistantResponse ?task = Some ?r" by simp
  have h5: "operations ?r = Some [?op]" by simp
  have e: "applyFileOperations ?fs [?op] = FolderNode [(''src'', FolderNode [(''x.tsx'', FileNode ''hi'')])]"
    by (simp add: applyFileOperations_def apply_operation_def traversePath_def path_parts_def
        is_folder_def)
  from approve_reject_pending_confirmation [OF h1 h2 h3 h4 h5] e show ?thesis
    by simp
qed

section \<open>The Stream Framer\<close>

text \<open>
  C5: the conversational part after any number of chunks depends on the concatenated text
  only, not on where the chunks were cut: two sequences of chunks with the same
  concatenation give the same conversational part, and however the text
  "hello ---JSON_OPERATIONS--- {...}" is cut into chunks, once the chunks received contain
  the whole marker the conversational part is "hello ".
\<close>

theorem framer_independent_of_chunking:
  "(concat cs = concat ds \<longrightarrow>
      conversationalPart (framer_run cs) = conversationalPart (framer_run ds))
   \<and> (concat cs = ''hello ---JSON_OPERATIONS--- {...}'' \<longrightarrow>
       (\<forall>n \<le> length cs.
          prefix (''hello '' @ opsSeparator) (concat (take n cs)) \<longrightarrow>
          conversationalPart (framer_run (take n cs)) = ''hello ''))"
proof (intro conjI impI allI)
  assume "concat cs = concat ds"
  then show "conversationalPart (framer_run cs) = conversationalPart (framer_run ds)"
    by (simp add: framer_run_conv)
next
  fix n
  assume c: "concat cs = ''hello ---JSON_OPERATIONS--- {...}''"
    and p: "prefix (''hello '' @ opsSeparator) (concat (take n cs))"
  have "concat cs = concat (take n cs) @ concat (drop n cs)"
    by (metis append_take_drop_id concat_append)
  with c have "prefix (concat (take n cs)) ''hello ---JSON_OPERATIONS--- {...}''"
    by (metis prefixI)
  with p show "conversationalPart (framer_run (take n cs)) = ''hello ''"
    by (simp add: framer_run_conv hello_prefixes)
qed

text \<open>C5 at three ways of cutting the text.\<close>

theorem framer_independent_of_chunking_witness:
  "conversationalPart (framer_run [''hel'', ''lo --'', ''-JSON_OPERATIONS-'', ''-- {'', ''...}''])
     = conversationalPart (framer_run [''hello ---JSON_OPERATIONS--- {...}''])
   \<and> conversationalPart (framer_run (take 3 [''hello -'', ''--JSON_OPERATIONS'', ''---'', '' {...}'']))
     = ''hello ''
   \<and> conversationalPart (framer_run (take 4 [''hel'', ''lo --'', ''-JSON_OPERATIONS-'', ''-- {'', ''...}'']))
     = ''hello ''"
proof -
  let ?cs = "[''hel'', ''lo --'', ''-JSON_OPERATIONS-'', ''-- {'', ''...}'']"
  let ?ds = "[''hello ---JSON_OPERATIONS--- {...}'']"
  let ?es = "[''hello -'', ''--JSON_OPERATIONS'', ''---'', '' {...}'']"
  have h1: "concat ?cs = concat ?ds" by simp
  have h2: "concat ?es = ''hello ---JSON_OPERATIONS--- {...}''" by simp
  have h3: "3 \<le> length ?es \<and> prefix (''hello '' @ opsSeparator) (concat (take 3 ?es))"
    by (simp add: opsSeparator_def)
  have h4: "concat ?cs = ''hello ---JSON_OPERATIONS--- {...}''" by simp
  have h5: "4 \<le> length ?cs \<and> prefix (''hello '' @ opsSeparator) (concat (take 4 ?cs))"
    by (simp add: opsSeparator_def)
  have c1: "conversationalPart (framer_run ?cs) = conversationalPart (framer_run ?ds)"
    using framer_independent_of_chunking [of ?cs ?ds] h1 by blast
  have c2: "conversationalPart (framer_run (take 3 ?es)) = ''hello ''"
    using framer_independent_of_chunking [of ?es ?es] h2 h3 by blast
  have c3: "conversationalPart (framer_run (take 4 ?cs)) = ''hello ''"
    using framer_independent_of_chunking [of ?cs ?cs] h4 h5 by blast
  from c1 c2 c3 show ?thesis by blast
qed

text \<open>
  C6: in a text where both markers occur the blueprint marker wins whatever their
  positions; the conversational part is everything before the first occurrence of the
  blueprint marker and the payload is everything after it; and only the blueprint is
  decoded: the outcome holds a blueprint and no operations, or is the error of a
  blueprint that does not parse. When the stream has ended the task shows the
  conversational part trimmed.
\<close>

theorem blueprint_marker_wins:
  assumes "sublist blueprintSeparator text" and "sublist opsSeparator text"
  shows "winning_kind text = Blueprint
     \<and> text = conversational text @ blueprintSeparator @ payload_tail text
     \<and> \<not> sublist blueprintSeparator (conversational text @ butlast blueprintSeparator)
     \<and> (case decode_response parse isAutoPilot text of
          Decoded d \<Rightarrow> final_status d = pending_blueprint_approval \<and> fileOps d = []
                        \<and> parsed_blueprint d \<noteq> None
                        \<and> finalConversationalPart d = trim (conversational text)
        | Thrown m \<Rightarrow> prefix ''Failed to parse blueprint from AI. '' m
        | Ill_typed \<Rightarrow> False)"
proof -
  from indexOf_found [OF assms(1)] obtain i where
    f: "find_first blueprintSeparator text = Some i"
    and i: "indexOf text blueprintSeparator = int i"
    by blast
  from find_first_Some_split [OF f] obtain post where
    t: "text = take i text @ blueprintSeparator @ post" and le: "i \<le> length text"
    by blast
  have k: "winning_kind text = Blueprint" using i by (simp add: winning_kind_def)
  have c: "conversational text = take i text"
    using i by (simp add: conversational_def Let_def substring_to_def)
  have "drop (i + length blueprintSeparator) text = post"
  proof -
    have "drop (i + length blueprintSeparator) (take i text @ blueprintSeparator @ post) = post"
      using le by simp
    with t show ?thesis by simp
  qed
  then have p: "payload_tail text = post"
    using i by (simp add: payload_tail_def substring_from_def nat_add_distrib)
  have ne: "blueprintSeparator \<noteq> []" by (simp add: blueprintSeparator_def)
  have d: "case decode_response parse isAutoPilot text of
          Decoded d \<Rightarrow> final_status d = pending_blueprint_approval \<and> fileOps d = []
                        \<and> parsed_blueprint d \<noteq> None
                        \<and> finalConversationalPart d = trim (conversational text)
        | Thrown m \<Rightarrow> prefix ''Failed to parse blueprint from AI. '' m
        | Ill_typed \<Rightarrow> False"
    using k i by (simp add: decode_response_kind c substring_to_def split: sum.splits)
  from k t c p find_first_first [OF f ne] d show ?thesis by simp
qed

text \<open>C6 at a text whose operations marker comes first.\<close>

theorem blueprint_marker_wins_witness:
  \<open>winning_kind ''A ---JSON_OPERATIONS--- {"operations":[]} ---JSON_BLUEPRINT--- {"appName":"X"}''
     = Blueprint
   \<and> conversational ''A ---JSON_OPERATIONS--- {"operations":[]} ---JSON_BLUEPRINT--- {"appName":"X"}''
     = ''A ---JSON_OPERATIONS--- {"operations":[]} ''
   \<and> payload_tail ''A ---JSON_OPERATIONS--- {"operations":[]} ---JSON_BLUEPRINT--- {"appName":"X"}''
     = '' {"appName":"X"}''
   \<and> decode_response JSON_parse True
       ''A ---JSON_OPERATIONS--- {"operations":[]} ---JSON_BLUEPRINT--- {"appName":"X"}''
     = Decoded \<lparr>finalConversationalPart = ''A ---JSON_OPERATIONS--- {"operations":[]}'',
                fileOps = [], parsed_blueprint = Some (JObj [(''appName'', JStr ''X'')]),
                final_status = pending_blueprint_approval\<rparr>\<close>
proof -
  let ?text = \<open>''A ---JSON_OPERATIONS--- {"operations":[]} ---JSON_BLUEPRINT--- {"appName":"X"}''\<close>
  let ?pre = \<open>''A ---JSON_OPERATIONS--- {"operations":[]} ''\<close>
  let ?post = \<open>'' {"appName":"X"}''\<close>
  have "?text = ?pre @ blueprintSeparator @ ?post" by (simp add: blueprintSeparator_def)
  then have h1: "sublist blueprintSeparator ?text" unfolding sublist_def by blast
  have \<open>?text = ''A '' @ opsSeparator @ '' {"operations":[]} ---JSON_BLUEPRINT--- {"appName":"X"}''\<close>
    by (simp add: opsSeparator_def)
  then have h2: "sublist opsSeparator ?text" unfolding sublist_def by blast
  have d: \<open>decode_response JSON_parse True ?text
     = Decoded \<lparr>finalConversationalPart = ''A ---JSON_OPERATIONS--- {"operations":[]}'',
                fileOps = [], parsed_blueprint = Some (JObj [(''appName'', JStr ''X'')]),
                final_status = pending_blueprint_approval\<rparr>\<close>
    by (simp add: decode_response_def text_eval json_eval)
  have c: "conversational ?text = ?pre" by (simp add: text_eval)
  from blueprint_marker_wins [OF h1 h2, where parse = JSON_parse and isAutoPilot = True]
  have "winning_kind ?text = Blueprint"
    and "?text = conversational ?text @ blueprintSeparator @ payload_tail ?text"
    by blast+
  with c d show ?thesis by (simp add: blueprintSeparator_def)
qed

section \<open>The Payload Decoder\<close>

text \<open>
  The fence is stripped from a payload whose first character after white space is not a
  backquote, a white space or \<open>j\<close>; this does not depend on the parser.
\<close>

lemma fence_stripped:
  assumes "dropWhile is_space j = c # r" and "value_start c"
    and "tag = ''json'' \<or> tag = []"
    and "\<forall>x \<in> set ws1. is_space x" and "\<forall>x \<in> set ws2. is_space x"
  shows "jsonString (fenced tag ws1 j ws2) = trim j" and "jsonString j = trim j"
proof -
  from value_start_not_space [OF assms(2)] have n: "\<not> is_space c" "c \<noteq> CHR 0x60" by simp_all
  from jsonString_fenced [OF assms(1) n(1) value_start_not_j [OF assms(2)] assms(3,4,5)]
  show "jsonString (fenced tag ws1 j ws2) = trim j" .
  from jsonString_bare [OF assms(1) n] show "jsonString j = trim j" by simp
qed

text \<open>
  C8: for every JSON text, the decoder extracts the same string, and so parses the same
  value, from the text wrapped in a fenced code block (with the tag \<open>json\<close> or none, and any
  white space inside the fence) as from the bare text.
\<close>

theorem fenced_and_bare_decode_alike:
  assumes "JSON_parse j = Inr v"
    and "tag = ''json'' \<or> tag = []"
    and "\<forall>x \<in> set ws1. is_space x" and "\<forall>x \<in> set ws2. is_space x"
  shows "jsonString (fenced tag ws1 j ws2) = jsonString j
     \<and> parse (jsonString (fenced tag ws1 j ws2)) = parse (jsonString j)"
proof -
  from JSON_parse_start [OF assms(1)] obtain c r where
    d: "dropWhile is_space j = c # r" and v: "value_start c"
    by blast
  from value_start_not_space [OF v] have n: "\<not> is_space c" "c \<noteq> CHR 0x60" by simp_all
  from jsonString_bare [OF d n]
    jsonString_fenced [OF d n(1) value_start_not_j [OF v] assms(2,3,4)]
  show ?thesis by simp
qed

text \<open>C8 at the payload of the specification.\<close>

theorem fenced_and_bare_decode_alike_witness:
  \<open>jsonString (fenced ''json'' [CHR 0x0A] ''{"operations":[]}'' [CHR 0x0A])
     = jsonString ''{"operations":[]}''
   \<and> JSON_parse (jsonString (fenced ''json'' [CHR 0x0A] ''{"operations":[]}'' [CHR 0x0A]))
     = JSON_parse (jsonString ''{"operations":[]}'')
   \<and> JSON_parse (jsonString ''{"operations":[]}'') = Inr (JObj [(''operations'', JArr [])])\<close>
proof -
  have h1: \<open>JSON_parse ''{"operations":[]}'' = Inr (JObj [(''operations'', JArr [])])\<close>
    by (simp add: json_eval)
  have h2: "''json'' = ''json'' \<or> ''json'' = []" by simp
  have h3: "\<forall>x \<in> set [CHR 0x0A]. is_space x" by (simp add: is_space_def)
  have e: \<open>jsonString ''{"operations":[]}'' = ''{"operations":[]}''\<close>
    by (simp add: text_eval)
  from fenced_and_bare_decode_alike [OF h1 h2 h3 h3, where parse = JSON_parse] h1 e
  show ?thesis by simp
qed

section \<open>The end of a round\<close>

text \<open>
  C2, as the claim states it, fails in two places. The branch taken for an operations
  payload depends on the flag \<open>isAutoPilot\<close> of the round, not on the origin of the task: a
  round started by approving the blueprint of an auto-pilot task runs without the flag, so
  the task ends in \<open>pending_confirmation\<close> with its operations not applied. And a marker
  that won does not decide the status when its payload does not parse: the task ends in
  \<open>error\<close>.
\<close>

theorem autopilot_origin_confirmation_counterexample:
  \<open>handleApproveBlueprint JSON_parse
     \<lparr>chunks = [''Done. ---JSON_OPERATIONS---{"operations":[{"operation":"CREATE_FILE","path":"x","content":"hi"}]}''],
      failure = None\<rparr> ''A''
     (example_app (FolderNode [])
        [example_task ''A'' autopilot pending_blueprint_approval
           (Some \<lparr>resp_content = ''Plan'', operations = Some [],
                  blueprint = Some (JObj [(''appName'', JStr ''X'')])\<rparr>) None])
   = Some (example_app (FolderNode [])
        [example_task ''A'' autopilot pending_confirmation
           (Some \<lparr>resp_content = ''Done.'',
                  operations = Some [\<lparr>operation = CREATE_FILE, path = ''x'',
                                       op_content = Some ''hi'', newPath = None\<rparr>],
                  blueprint = None\<rparr>) None])
   \<and> handleCreateTask JSON_parse
     \<lparr>chunks = [''Plan ---JSON_BLUEPRINT---{"appName":''], failure = None\<rparr> ''prompt'' ''B'' 0
     (example_app (FolderNode []) [])
   = Some (example_app (FolderNode [])
        [example_task ''B'' user error
           (Some \<lparr>resp_content = ''Plan '', operations = None, blueprint = None\<rparr>)
           (Some ''Failed to parse blueprint from AI. Unexpected token in JSON'')])\<close>
  by (simp add: task_eval text_eval json_eval)

text \<open>
  C2 as amended: when the stream has ended and the response was decoded, the status of
  the task and the tree of its workspace are as follows. If the blueprint marker won, the
  status is \<open>pending_blueprint_approval\<close> and the tree is unchanged. If the operations
  marker won, the operations are those of the parsed payload; in a round with the
  auto-pilot flag (the rounds that \<open>handleAutoPilotTick\<close> starts) they are applied and the
  status is \<open>completed\<close>, and in a round without it (the rounds that \<open>handleCreateTask\<close> and
  \<open>handleApproveBlueprint\<close> start) the status is \<open>pending_confirmation\<close> and the tree is
  unchanged. With no marker the status is \<open>completed\<close> and the tree is unchanged.
\<close>

theorem stream_completion_amended:
  assumes "activeWorkspace app = Some ws"
    and "find (\<lambda>t. task_id t = taskId) (tasks ws) = Some task"
    and "failure stream = None"
    and "decode_response parse isAutoPilot (concat (chunks stream)) = Decoded d"
  shows "\<exists>app' ws'. runAIGeneration parse stream taskId isAutoPilot app = Some app'
      \<and> activeWorkspace app' = Some ws'
      \<and> (case winning_kind (concat (chunks stream)) of
            Blueprint \<Rightarrow>
              status_of taskId ws' = Some pending_blueprint_approval
              \<and> fileSystem ws' = fileSystem ws
          | Operations \<Rightarrow>
              (\<exists>v. parse (jsonString (payload_tail (concat (chunks stream)))) = Inr v
                   \<and> operations_of v = Inr (Some (fileOps d)))
              \<and> (if isAutoPilot
                  then status_of taskId ws' = Some completed
                       \<and> fileSystem ws' = applyFileOperations (fileSystem ws) (fileOps d)
                  else status_of taskId ws' = Some pending_confirmation
                       \<and> fileSystem ws' = fileSystem ws)
          | NoPayload \<Rightarrow>
              status_of taskId ws' = Some completed \<and> fileSystem ws' = fileSystem ws)"
proof -
  let ?text = "concat (chunks stream)"
  let ?ws' = "complete_update taskId isAutoPilot d (after_stream taskId (chunks stream) ws)"
  from runAIGeneration_decoded [OF assms(1,3,4)] obtain app' where
    r: "runAIGeneration parse stream taskId isAutoPilot app = Some app'"
    and w: "activeWorkspace app' = Some ?ws'"
    by blast
  have st: "status_of taskId (complete_update taskId b d (after_stream taskId (chunks stream) ws))
      = Some (final_status d)" for b
    using assms(2) by (simp add: status_of_def find_complete_update find_after_stream)
  have fs: "fileSystem (complete_update taskId b d (after_stream taskId (chunks stream) ws))
      = (if b \<and> fileOps d \<noteq> []
         then applyFileOperations (fileSystem ws) (fileOps d) else fileSystem ws)" for b
    by (simp add: fileSystem_complete)
  have k: "case winning_kind ?text of
            Blueprint \<Rightarrow> final_status d = pending_blueprint_approval \<and> fileOps d = []
          | Operations \<Rightarrow>
              (\<exists>v. parse (jsonString (payload_tail ?text)) = Inr v
                   \<and> operations_of v = Inr (Some (fileOps d)))
              \<and> final_status d = (if isAutoPilot then completed else pending_confirmation)
          | NoPayload \<Rightarrow> final_status d = completed \<and> fileOps d = []"
    using assms(4)
    by (auto simp: decode_response_kind split: payload_kind.splits sum.splits option.splits)
  have "case winning_kind ?text of
            Blueprint \<Rightarrow>
              status_of taskId ?ws' = Some pending_blueprint_approval
              \<and> fileSystem ?ws' = fileSystem ws
          | Operations \<Rightarrow>
              (\<exists>v. parse (jsonString (payload_tail ?text)) = Inr v
                   \<and> operations_of v = Inr (Some (fileOps d)))
              \<and> (if isAutoPilot
                  then status_of taskId ?ws' = Some completed
                       \<and> fileSystem ?ws' = applyFileOperations (fileSystem ws) (fileOps d)
                  else status_of taskId ?ws' = Some pending_confirmation
                       \<and> fileSystem ?ws' = fileSystem ws)
          | NoPayload \<Rightarrow>
              status_of taskId ?ws' = Some completed \<and> fileSystem ?ws' = fileSystem ws"
    using k by (cases "winning_kind ?text") (auto simp: st fs)
  with r w show ?thesis by blast
qed

text \<open>C2 as amended, at an operations payload in an auto-pilot round and in a user round.\<close>

theorem stream_completion_amended_witness:
  \<open>(\<exists>app' ws'. runAIGeneration JSON_parse
        \<lparr>chunks = [''Done. ---JSON_OPER'', ''ATIONS---{"operations":[{"operation":"CREATE_FILE","path":"x","content":"hi"}]}''],
         failure = None\<rparr> ''t1'' True
        (example_app (FolderNode []) [example_task ''t1'' autopilot running None None]) = Some app'
      \<and> activeWorkspace app' = Some ws'
      \<and> status_of ''t1'' ws' = Some completed
      \<and> fileSystem ws' = FolderNode [(''x'', FileNode ''hi'')])
   \<and> (\<exists>app' ws'. runAIGeneration JSON_parse
        \<lparr>chunks = [''Done. ---JSON_OPER'', ''ATIONS---{"operations":[{"operation":"CREATE_FILE","path":"x","content":"hi"}]}''],
         failure = None\<rparr> ''t1'' False
        (example_app (FolderNode []) [example_task ''t1'' user running None None]) = Some app'
      \<and> activeWorkspace app' = Some ws'
      \<and> status_of ''t1'' ws' = Some pending_confirmation
      \<and> fileSystem ws' = FolderNode [])\<close>
proof -
  let ?stream = \<open>\<lparr>chunks = [''Done. ---JSON_OPER'', ''ATIONS---{"operations":[{"operation":"CREATE_FILE","path":"x","content":"hi"}]}''],
         failure = None\<rparr>\<close>
  let ?text = \<open>''Done. ---JSON_OPERATIONS---{"operations":[{"operation":"CREATE_FILE","path":"x","content":"hi"}]}''\<close>
  let ?op = "\<lparr>operation = CREATE_FILE, path = ''x'', op_content = Some ''hi'', newPath = None\<rparr>"
  let ?d = "\<lambda>b. \<lparr>finalConversationalPart = ''Done.'', fileOps = [?op], parsed_blueprint = None,
             final_status = (if b then completed else pending_confirmation)\<rparr>"
  have a: "activeWorkspace (example_app (FolderNode []) [example_task ''t1'' org running None None])
      = Some (example_workspace (FolderNode []) [example_task ''t1'' org running None None])" for org
    by (simp add: activeWorkspace_def example_app_def example_workspace_def)
  have f: "find (\<lambda>t. task_id t = ''t1'')
        (tasks (example_workspace (FolderNode []) [example_task ''t1'' org running None None]))
      = Some (example_task ''t1'' org running None None)" for org
    by (simp add: example_workspace_def example_task_def)
  have s: "failure ?stream = None" by simp
  have d: "decode_response JSON_parse b (concat (chunks ?stream)) = Decoded (?d b)" for b
    by (simp add: decode_response_def text_eval json_eval)
  have k: "winning_kind ?text = Operations"
    by (simp add: text_eval)
  have e: "applyFileOperations (FolderNode []) [?op] = FolderNode [(''x'', FileNode ''hi'')]"
    by (simp add: tree_eval)
  have fs: "fileSystem (example_workspace (FolderNode []) ts) = FolderNode []" for ts
    by (simp add: example_workspace_def)
  from stream_completion_amended [where parse = JSON_parse and isAutoPilot = True,
      OF a [of autopilot] f [of autopilot] s d]
  have 1: "\<exists>app' ws'. runAIGeneration JSON_parse ?stream ''t1'' True
        (example_app (FolderNode []) [example_task ''t1'' autopilot running None None]) = Some app'
      \<and> activeWorkspace app' = Some ws'
      \<and> status_of ''t1'' ws' = Some completed
      \<and> fileSystem ws' = FolderNode [(''x'', FileNode ''hi'')]"
    by (auto simp: k e fs)
  from stream_completion_amended [where parse = JSON_parse and isAutoPilot = False,
      OF a [of user] f [of user] s d]
  have 2: "\<exists>app' ws'. runAIGeneration JSON_parse ?stream ''t1'' False
        (example_app (FolderNode []) [example_task ''t1'' user running None None]) = Some app'
      \<and> activeWorkspace app' = Some ws'
      \<and> status_of ''t1'' ws' = Some pending_confirmation
      \<and> fileSystem ws' = FolderNode []"
    by (auto simp: k fs)
  from 1 2 show ?thesis by blast
qed

text \<open>
  C7: when the payload after the winning marker does not parse, the round ends (the error
  is caught) with the task in the status \<open>error\<close>, holding the message of the failure, and
  with the tree of the workspace unchanged.
\<close>

theorem decode_failure_ends_in_error:
  assumes "activeWorkspace app = Some ws"
    and "find (\<lambda>t. task_id t = taskId) (tasks ws) = Some task"
    and "failure stream = None"
    and "winning_kind (concat (chunks stream)) \<noteq> NoPayload"
    and "parse (jsonString (payload_tail (concat (chunks stream)))) = Inl e"
  shows "\<exists>app' ws' task'. runAIGeneration parse stream taskId isAutoPilot app = Some app'
      \<and> activeWorkspace app' = Some ws'
      \<and> find (\<lambda>t. task_id t = taskId) (tasks ws') = Some task'
      \<and> status task' = error
      \<and> task_error task' =
           Some ((if winning_kind (concat (chunks stream)) = Blueprint
                  then ''Failed to parse blueprint from AI. ''
                  else ''Failed to parse file operations from AI. '') @ e)
      \<and> fileSystem ws' = fileSystem ws"
proof -
  let ?text = "concat (chunks stream)"
  let ?m = "(if winning_kind ?text = Blueprint then ''Failed to parse blueprint from AI. ''
            else ''Failed to parse file operations from AI. '') @ e"
  have d: "decode_response parse isAutoPilot ?text = Thrown ?m"
    using assms(4,5) by (cases "winning_kind ?text") (simp_all add: decode_response_kind)
  from runAIGeneration_thrown [OF assms(1,3) d] obtain app' where
    r: "runAIGeneration parse stream taskId isAutoPilot app = Some app'"
    and w: "activeWorkspace app'
        = Some (fail_update taskId ?m (after_stream taskId (chunks stream) ws))"
    by blast
  show ?thesis
    using r w assms(2) by (simp add: find_fail_update find_after_stream)
qed

text \<open>C7 at a truncated operations payload.\<close>

theorem decode_failure_ends_in_error_witness:
  \<open>\<exists>app' ws' task'. runAIGeneration JSON_parse
        \<lparr>chunks = [''Done. ---JSON_OPERATIONS---{"operations":[''], failure = None\<rparr> ''t1'' True
        (example_app (FolderNode []) [example_task ''t1'' autopilot running None None]) = Some app'
      \<and> activeWorkspace app' = Some ws'
      \<and> find (\<lambda>t. task_id t = ''t1'') (tasks ws') = Some task'
      \<and> status task' = error
      \<and> task_error task' = Some ''Failed to parse file operations from AI. Unexpected token in JSON''
      \<and> fileSystem ws' = FolderNode []\<close>
proof -
  let ?stream = \<open>\<lparr>chunks = [''Done. ---JSON_OPERATIONS---{"operations":[''], failure = None\<rparr>\<close>
  have a: "activeWorkspace (example_app (FolderNode []) [example_task ''t1'' autopilot running None None])
      = Some (example_workspace (FolderNode []) [example_task ''t1'' autopilot running None None])"
    by (simp add: activeWorkspace_def example_app_def example_workspace_def)
  have f: "find (\<lambda>t. task_id t = ''t1'')
        (tasks (example_workspace (FolderNode []) [example_task ''t1'' autopilot running None None]))
      = Some (example_task ''t1'' autopilot running None None)"
    by (simp add: example_workspace_def example_task_def)
  have s: "failure ?stream = None" by simp
  have k: \<open>winning_kind ''Done. ---JSON_OPERATIONS---{"operations":['' = Operations\<close>
    by (simp add: text_eval)
  then have k': "winning_kind (concat (chunks ?stream)) \<noteq> NoPayload" by simp
  have p: "JSON_parse (jsonString (payload_tail (concat (chunks ?stream))))
      = Inl ''Unexpected token in JSON''"
    by (simp add: text_eval json_eval)
  from decode_failure_ends_in_error [where parse = JSON_parse and isAutoPilot = True, OF a f s k' p]
  show ?thesis
    by (simp add: k example_workspace_def)
qed

text \<open>
  C10, as the claim states it, fails for the payload \<open>null\<close>: it is valid JSON without an
  \<open>operations\<close> field, but reading the field of \<open>null\<close> throws inside the \<open>try\<close>, and the
  task ends in \<open>error\<close>.
\<close>

theorem null_payload_counterexample:
  \<open>JSON_parse ''null'' = Inr JNull
   \<and> operations_property JNull = None
   \<and> handleCreateTask JSON_parse
     \<lparr>chunks = [''Done. ---JSON_OPERATIONS---null''], failure = None\<rparr> ''prompt'' ''t1'' 0
     (example_app (FolderNode []) [])
   = Some (example_app (FolderNode [])
        [example_task ''t1'' user error
           (Some \<lparr>resp_content = ''Done. '', operations = None, blueprint = None\<rparr>)
           (Some ''Failed to parse file operations from AI. Cannot read properties of null'')])\<close>
  by (simp add: task_eval text_eval json_eval)

text \<open>
  C10 as amended: when the operations payload parses to a value other than \<open>null\<close> that
  has no \<open>operations\<close> field, or a falsy one (\<open>null\<close>, \<open>false\<close>, zero, the empty string),
  the batch decoded is empty: the task ends in \<open>completed\<close> in a round with the auto-pilot
  flag and in \<open>pending_confirmation\<close> in a round without it, its error is what it was, and
  the tree is unchanged.
\<close>

theorem missing_operations_amended:
  assumes "activeWorkspace app = Some ws"
    and "find (\<lambda>t. task_id t = taskId) (tasks ws) = Some task"
    and "failure stream = None"
    and "winning_kind (concat (chunks stream)) = Operations"
    and "parse (jsonString (payload_tail (concat (chunks stream)))) = Inr v"
    and "v \<noteq> JNull"
    and "operations_property v = None \<or> (\<exists>f. operations_property v = Some f \<and> \<not> truthy f)"
  shows "\<exists>app' ws' task' r. runAIGeneration parse stream taskId isAutoPilot app = Some app'
      \<and> activeWorkspace app' = Some ws'
      \<and> find (\<lambda>t. task_id t = taskId) (tasks ws') = Some task'
      \<and> status task' = (if isAutoPilot then completed else pending_confirmation)
      \<and> assistantResponse task' = Some r \<and> operations r = Some []
      \<and> task_error task' = task_error task
      \<and> fileSystem ws' = fileSystem ws"
proof -
  let ?text = "concat (chunks stream)"
  from assms(6,7) have o: "operations_of v = Inr (Some [])"
    by (auto simp: operations_of_def)
  let ?d = "\<lparr>finalConversationalPart = trim (substring_to ?text (indexOf ?text opsSeparator)),
             fileOps = [], parsed_blueprint = None,
             final_status = (if isAutoPilot then completed else pending_confirmation)\<rparr>"
  have d: "decode_response parse isAutoPilot ?text = Decoded ?d"
    using assms(4,5) o by (simp add: decode_response_kind)
  from runAIGeneration_decoded [OF assms(1,3) d] obtain app' where
    r: "runAIGeneration parse stream taskId isAutoPilot app = Some app'"
    and w: "activeWorkspace app'
        = Some (complete_update taskId isAutoPilot ?d (after_stream taskId (chunks stream) ws))"
    by blast
  show ?thesis
    using r w assms(2)
    by (simp add: find_complete_update find_after_stream fileSystem_complete)
qed

text \<open>C10 as amended, at an object whose \<open>operations\<close> is \<open>null\<close>.\<close>

theorem missing_operations_amended_witness:
  \<open>\<exists>app' ws' task' r. runAIGeneration JSON_parse
        \<lparr>chunks = [''Nothing to do. ---JSON_OPERATIONS--- {"note":"none","operations":null}''],
         failure = None\<rparr> ''t1'' False
        (example_app (FolderNode []) [example_task ''t1'' user running None None]) = Some app'
      \<and> activeWorkspace app' = Some ws'
      \<and> find (\<lambda>t. task_id t = ''t1'') (tasks ws') = Some task'
      \<and> status task' = pending_confirmation
      \<and> assistantResponse task' = Some r \<and> operations r = Some []
      \<and> task_error task' = None
      \<and> fileSystem ws' = FolderNode []\<close>
proof -
  let ?stream = \<open>\<lparr>chunks = [''Nothing to do. ---JSON_OPERATIONS--- {"note":"none","operations":null}''],
         failure = None\<rparr>\<close>
  let ?v = "JObj [(''note'', JStr ''none''), (''operations'', JNull)]"
  have a: "activeWorkspace (example_app (FolderNode []) [example_task ''t1'' user running None None])
      = Some (example_workspace (FolderNode []) [example_task ''t1'' user running None None])"
    by (simp add: activeWorkspace_def example_app_def example_workspace_def)
  have f: "find (\<lambda>t. task_id t = ''t1'')
        (tasks (example_workspace (FolderNode []) [example_task ''t1'' user running None None]))
      = Some (example_task ''t1'' user running None None)"
    by (simp add: example_workspace_def example_task_def)
  have s: "failure ?stream = None" by simp
  have k: "winning_kind (concat (chunks ?stream)) = Operations"
    by (simp add: text_eval)
  have p: "JSON_parse (jsonString (payload_tail (concat (chunks ?stream)))) = Inr ?v"
    by (simp add: text_eval json_eval)
  have n: "?v \<noteq> JNull" by simp
  have "operations_property ?v = Some JNull \<and> \<not> truthy JNull"
    by (simp add: operations_property_def)
  then have o: "operations_property ?v = None \<or> (\<exists>f. operations_property ?v = Some f \<and> \<not> truthy f)"
    by blast
  from missing_operations_amended [where parse = JSON_parse and isAutoPilot = False, OF a f s k p n o]
  show ?thesis
    by (simp add: example_workspace_def example_task_def)
qed

section \<open>The auto-pilot scheduler\<close>

text \<open>
  C9, as the claim states it, fails in its consequence that two auto-pilot tasks never run
  at once: the single-flight test is made by the tick only. While the auto-pilot task \<open>A\<close>
  waits for the approval of its blueprint, a tick starts the auto-pilot task \<open>B\<close>;
  approving the blueprint of \<open>A\<close> then sets \<open>A\<close> to \<open>running\<close> too.
\<close>

theorem two_autopilot_tasks_running_counterexample:
  "autopilot_tick_begin ''B'' 1
     (example_app (FolderNode [])
        [example_task ''A'' autopilot pending_blueprint_approval
           (Some \<lparr>resp_content = ''Plan'', operations = Some [],
                  blueprint = Some (JObj [(''appName'', JStr ''X'')])\<rparr>) None])
   = Some (example_app (FolderNode [])
        [\<lparr>task_id = ''B'', userPrompt = ''Proactive AI Step'', status = running,
          assistantResponse = None, task_error = None, timestamp = 1, task_type = autopilot\<rparr>,
         example_task ''A'' autopilot pending_blueprint_approval
           (Some \<lparr>resp_content = ''Plan'', operations = Some [],
                  blueprint = Some (JObj [(''appName'', JStr ''X'')])\<rparr>) None])
   \<and> approve_blueprint_begin ''A''
     (example_app (FolderNode [])
        [\<lparr>task_id = ''B'', userPrompt = ''Proactive AI Step'', status = running,
          assistantResponse = None, task_error = None, timestamp = 1, task_type = autopilot\<rparr>,
         example_task ''A'' autopilot pending_blueprint_approval
           (Some \<lparr>resp_content = ''Plan'', operations = Some [],
                  blueprint = Some (JObj [(''appName'', JStr ''X'')])\<rparr>) None])
   = Some (example_app (FolderNode [])
        [\<lparr>task_id = ''B'', userPrompt = ''Proactive AI Step'', status = running,
          assistantResponse = None, task_error = None, timestamp = 1, task_type = autopilot\<rparr>,
         example_task ''A'' autopilot running
           (Some \<lparr>resp_content = ''Plan'', operations = Some [],
                  blueprint = Some (JObj [(''appName'', JStr ''X'')])\<rparr>) None])
   \<and> map task_id (running_autopilot_tasks (example_workspace (FolderNode [])
        [\<lparr>task_id = ''B'', userPrompt = ''Proactive AI Step'', status = running,
          assistantResponse = None, task_error = None, timestamp = 1, task_type = autopilot\<rparr>,
         example_task ''A'' autopilot running
           (Some \<lparr>resp_content = ''Plan'', operations = Some [],
                  blueprint = Some (JObj [(''appName'', JStr ''X'')])\<rparr>) None]))
     = [''B'', ''A'']"
  by (simp add: task_eval running_autopilot_tasks_def)

text \<open>
  C9 as amended: a tick that finds an auto-pilot task of the active workspace in the status
  \<open>running\<close> creates no task and changes nothing; a tick that does create a task found
  none running, and its task is then the only auto-pilot task running, so that ticks
  alone never make two run at once; and while auto-pilot is off the timer is not armed
  and a period of it changes nothing.
\<close>

theorem autopilot_single_flight_amended:
  "(activeWorkspace app = Some ws \<and> autopilot_running ws \<longrightarrow>
      autopilot_tick_begin taskId now app = None
      \<and> handleAutoPilotTick parse stream taskId now app = Some app
      \<and> interval_tick parse stream taskId now app = Some app)
   \<and> (autopilot_tick_begin taskId now app = Some started \<longrightarrow>
        (\<exists>w0 w1. activeWorkspace app = Some w0 \<and> activeWorkspace started = Some w1
           \<and> running_autopilot_tasks w0 = []
           \<and> map task_id (running_autopilot_tasks w1) = [taskId]))
   \<and> (\<not> isAutoPilotOn app \<longrightarrow>
        \<not> interval_armed app \<and> interval_tick parse stream taskId now app = Some app)"
proof (intro conjI impI)
  assume a: "activeWorkspace app = Some ws \<and> autopilot_running ws"
  then show b: "autopilot_tick_begin taskId now app = None"
    by (simp add: autopilot_tick_begin_def)
  then show h: "handleAutoPilotTick parse stream taskId now app = Some app"
    by (simp add: handleAutoPilotTick_def)
  then show "interval_tick parse stream taskId now app = Some app"
    by (simp add: interval_tick_def)
next
  assume b: "autopilot_tick_begin taskId now app = Some started"
  let ?new = "\<lparr>task_id = taskId, userPrompt = ''Proactive AI Step'',
                               status = running, assistantResponse = None, task_error = None,
                               timestamp = now, task_type = autopilot\<rparr>"
  from b obtain w0 where w: "activeWorkspace app = Some w0" and n: "\<not> autopilot_running w0"
    and a1: "started = add_task ?new app"
    by (auto simp: autopilot_tick_begin_def split: option.splits if_splits)
  from w obtain a where a: "activeWorkspaceId app = Some a"
    using activeWorkspace_id by blast
  from n have r0: "running_autopilot_tasks w0 = []"
    by (auto simp: autopilot_running_def running_autopilot_tasks_def filter_empty_conv)
  have w1: "activeWorkspace started = Some (w0\<lparr>tasks := ?new # tasks w0\<rparr>)"
    using a w activeWorkspace_map [of app a "\<lambda>ws. ws\<lparr>tasks := ?new # tasks ws\<rparr>"]
    by (simp add: a1 add_task_def)
  have "map task_id (running_autopilot_tasks (w0\<lparr>tasks := ?new # tasks w0\<rparr>)) = [taskId]"
    using r0 by (simp add: running_autopilot_tasks_def)
  with w w1 r0 show "\<exists>w0 w1. activeWorkspace app = Some w0 \<and> activeWorkspace started = Some w1
           \<and> running_autopilot_tasks w0 = []
           \<and> map task_id (running_autopilot_tasks w1) = [taskId]"
    by (intro exI [of _ w0] exI [of _ "w0\<lparr>tasks := ?new # tasks w0\<rparr>"]) simp
next
  assume "\<not> isAutoPilotOn app"
  then show "\<not> interval_armed app" by (simp add: interval_armed_def)
next
  assume "\<not> isAutoPilotOn app"
  then show "interval_tick parse stream taskId now app = Some app"
    by (simp add: interval_tick_def interval_armed_def)
qed

text \<open>C9 as amended, at a busy workspace, at an idle one and with auto-pilot off.\<close>

theorem autopilot_single_flight_amended_witness:
  "(autopilot_tick_begin ''B'' 1
      (example_app (FolderNode []) [example_task ''A'' autopilot running None None]) = None
    \<and> handleAutoPilotTick JSON_parse \<lparr>chunks = [''x''], failure = None\<rparr> ''B'' 1
      (example_app (FolderNode []) [example_task ''A'' autopilot running None None])
      = Some (example_app (FolderNode []) [example_task ''A'' autopilot running None None])
    \<and> interval_tick JSON_parse \<lparr>chunks = [''x''], failure = None\<rparr> ''B'' 1
      (example_app (FolderNode []) [example_task ''A'' autopilot running None None])
      = Some (example_app (FolderNode []) [example_task ''A'' autopilot running None None]))
   \<and> (\<exists>ws ws1. activeWorkspace (example_app (FolderNode []) []) = Some ws
         \<and> activeWorkspace (example_app (FolderNode [])
              [\<lparr>task_id = ''B'', userPrompt = ''Proactive AI Step'', status = running,
                assistantResponse = None, task_error = None, timestamp = 1,
                task_type = autopilot\<rparr>]) = Some ws1
         \<and> running_autopilot_tasks ws = []
         \<and> map task_id (running_autopilot_tasks ws1) = [''B''])
   \<and> (\<not> interval_armed ((example_app (FolderNode []) [])\<lparr>isAutoPilotOn := False\<rparr>)
       \<and> interval_tick JSON_parse \<lparr>chunks = [''x''], failure = None\<rparr> ''B'' 1
            ((example_app (FolderNode []) [])\<lparr>isAutoPilotOn := False\<rparr>)
          = Some ((example_app (FolderNode []) [])\<lparr>isAutoPilotOn := False\<rparr>))"
proof -
  let ?busy = "example_app (FolderNode []) [example_task ''A'' autopilot running None None]"
  let ?idle = "example_app (FolderNode []) []"
  let ?new = "\<lparr>task_id = ''B'', userPrompt = ''Proactive AI Step'', status = running,
                assistantResponse = None, task_error = None, timestamp = 1,
                task_type = autopilot\<rparr>"
  let ?off = "?idle\<lparr>isAutoPilotOn := False\<rparr>"
  let ?stream = "\<lparr>chunks = [''x''], failure = None\<rparr>"
  have h1: "activeWorkspace ?busy
        = Some (example_workspace (FolderNode []) [example_task ''A'' autopilot running None None])
      \<and> autopilot_running
          (example_workspace (FolderNode []) [example_task ''A'' autopilot running None None])"
    by (simp add: activeWorkspace_def example_app_def example_workspace_def example_task_def
        autopilot_running_def)
  have h2: "autopilot_tick_begin ''B'' 1 ?idle = Some (example_app (FolderNode []) [?new])"
    by (simp add: task_eval)
  have h3: "\<not> isAutoPilotOn ?off" by simp
  have c1: "autopilot_tick_begin ''B'' 1 ?busy = None
      \<and> handleAutoPilotTick JSON_parse ?stream ''B'' 1 ?busy = Some ?busy
      \<and> interval_tick JSON_parse ?stream ''B'' 1 ?busy = Some ?busy"
    using autopilot_single_flight_amended
      [where app = ?busy and taskId = "''B''" and now = 1 and parse = JSON_parse
         and stream = ?stream] h1
    by blast
  have c2: "\<exists>ws ws1. activeWorkspace ?idle = Some ws
         \<and> activeWorkspace (example_app (FolderNode []) [?new]) = Some ws1
         \<and> running_autopilot_tasks ws = []
         \<and> map task_id (running_autopilot_tasks ws1) = [''B'']"
    using autopilot_single_flight_amended
      [where app = ?idle and taskId = "''B''" and now = 1
         and started = "example_app (FolderNode []) [?new]"] h2
    by blast
  have c3: "\<not> interval_armed ?off \<and> interval_tick JSON_parse ?stream ''B'' 1 ?off = Some ?off"
    using autopilot_single_flight_amended
      [where app = ?off and taskId = "''B''" and now = 1 and parse = JSON_parse
         and stream = ?stream] h3
    by blast
  from c1 c2 c3 show ?thesis by blast
qed

end
